theory Spec2Isabelle
  imports Main "HOL-Library.Word"
begin

section \<open>Data: bytes, text, exceptions\<close>

text \<open>
  A Python \<open>bytes\<close> value is a list of 8-bit words. A Python \<open>str\<close> is a sequence of
  Unicode code points, modelled as a list of naturals; \<open>ascii\<close> turns an ASCII literal
  into such a list.
\<close>

type_synonym byte = "8 word"
type_synonym ustr = "nat list"

definition ascii :: "string \<Rightarrow> ustr" where
  "ascii s = map of_char s"

text \<open>The exceptions that can leave the two functions of the source.\<close>

datatype exn =
    StructError         \<comment> \<open>\<open>struct.error\<close>: \<open>unpack\<close> of a short buffer, \<open>pack\<close> of a value out of range\<close>
  | UnicodeEncodeError  \<comment> \<open>\<open>str.encode()\<close> of a lone surrogate; the write of a text to a text stream
                            whose encoding cannot encode it\<close>
  | IndexError          \<comment> \<open>a list index out of range\<close>
  | LibError            \<comment> \<open>an exception raised inside a function of \<open>lib/\<close>\<close>

text \<open>
  What one call of \<open>decode_1LMG\<close> or \<open>encode_1LMG\<close> does to the world: the strings it
  writes to \<open>sys.stderr\<close>, what it prints (\<open>None\<close> when it never prints), the content of
  the file at \<open>savepath\<close> (\<open>None\<close> when that file is never opened; for the text file of
  \<open>decode_1LMG\<close> the content is the text written to it), and how the call ends: with an
  exception (\<open>Inl\<close>) or with a returned integer (\<open>Inr\<close>).
\<close>

record 'f outcome =
  stderr :: "ustr list"
  stdout :: "ustr option"
  saved :: "'f option"
  ret :: "exn + int"

definition failed :: "ustr \<Rightarrow> int \<Rightarrow> 'f outcome" where
  \<comment> \<open>\<open>sys.stderr.write(msg); return code\<close>\<close>
  "failed msg code = \<lparr>stderr = [msg], stdout = None, saved = None, ret = Inr code\<rparr>"

definition raised :: "exn \<Rightarrow> 'f outcome" where
  \<comment> \<open>an exception that nothing catches, before the output file is opened\<close>
  "raised e = \<lparr>stderr = [], stdout = None, saved = None, ret = Inl e\<rparr>"

section \<open>\<open>io.BytesIO\<close>\<close>

text \<open>
  A \<open>BytesIO\<close> object is a buffer and a position. \<open>read\<close> returns what is left of the
  buffer from the position on (at most \<open>n\<close> bytes) and advances by what it returned;
  \<open>write\<close> overwrites from the position on, extends the buffer where needed (filling a gap
  with zeros) and advances; \<open>seek(n)\<close> sets the position, \<open>seek(0,2)\<close> sets it to the end
  of the buffer and returns it.
\<close>

record bytesio =
  buf :: "byte list"
  pos :: nat

definition BytesIO :: "byte list \<Rightarrow> bytesio" where
  "BytesIO bs = \<lparr>buf = bs, pos = 0\<rparr>"

definition bio_seek :: "nat \<Rightarrow> bytesio \<Rightarrow> bytesio" where
  "bio_seek n b = b\<lparr>pos := n\<rparr>"

definition bio_seek_end :: "bytesio \<Rightarrow> bytesio" where
  \<comment> \<open>\<open>b.seek(0,2)\<close>; the value the call returns is \<open>pos\<close> of the result\<close>
  "bio_seek_end b = b\<lparr>pos := length (buf b)\<rparr>"

definition bio_read :: "nat \<Rightarrow> bytesio \<Rightarrow> byte list \<times> bytesio" where
  "bio_read n b =
     (let r = take n (drop (pos b) (buf b)) in (r, b\<lparr>pos := pos b + length r\<rparr>))"

definition bio_read_all :: "bytesio \<Rightarrow> byte list \<times> bytesio" where
  \<comment> \<open>\<open>b.read()\<close>\<close>
  "bio_read_all b =
     (let r = drop (pos b) (buf b) in (r, b\<lparr>pos := pos b + length r\<rparr>))"

definition bio_write :: "byte list \<Rightarrow> bytesio \<Rightarrow> bytesio" where
  "bio_write bs b =
     (if bs = [] then b
      else b\<lparr>buf := take (pos b) (buf b) @ replicate (pos b - length (buf b)) 0 @ bs
                      @ drop (pos b + length bs) (buf b),
             pos := pos b + length bs\<rparr>)"

section \<open>\<open>struct.pack\<close> and \<open>struct.unpack\<close>\<close>

definition le32 :: "nat \<Rightarrow> byte list" where
  \<comment> \<open>the four bytes of an unsigned 32-bit value, least significant first\<close>
  "le32 n = [of_nat n, of_nat (n div 256), of_nat (n div 65536), of_nat (n div 16777216)]"

definition de32 :: "byte list \<Rightarrow> nat" where
  "de32 bs = unat (bs ! 0) + 256 * unat (bs ! 1) + 65536 * unat (bs ! 2)
             + 16777216 * unat (bs ! 3)"

definition pack_L :: "nat \<Rightarrow> exn + byte list" where
  \<comment> \<open>\<open>pack('<L', n)\<close>\<close>
  "pack_L n = (if n < 2 ^ 32 then Inr (le32 n) else Inl StructError)"

definition pack_LL :: "nat \<Rightarrow> nat \<Rightarrow> exn + byte list" where
  \<comment> \<open>\<open>pack('<LL', a, b)\<close>\<close>
  "pack_LL a b = (if a < 2 ^ 32 \<and> b < 2 ^ 32 then Inr (le32 a @ le32 b) else Inl StructError)"

definition pack_LLL :: "nat \<Rightarrow> nat \<Rightarrow> nat \<Rightarrow> exn + byte list" where
  \<comment> \<open>\<open>pack('<LLL', a, b, c)\<close>\<close>
  "pack_LLL a b c =
     (if a < 2 ^ 32 \<and> b < 2 ^ 32 \<and> c < 2 ^ 32 then Inr (le32 a @ le32 b @ le32 c)
      else Inl StructError)"

definition unpack_L :: "byte list \<Rightarrow> exn + nat" where
  \<comment> \<open>\<open>unpack('<L', bs)\<close>: the buffer must hold exactly 4 bytes\<close>
  "unpack_L bs = (if length bs = 4 then Inr (de32 bs) else Inl StructError)"

definition unpack_LL :: "byte list \<Rightarrow> exn + nat \<times> nat" where
  \<comment> \<open>\<open>unpack('<LL', bs)\<close>: the buffer must hold exactly 8 bytes\<close>
  "unpack_LL bs =
     (if length bs = 8 then Inr (de32 (take 4 bs), de32 (drop 4 bs)) else Inl StructError)"

section \<open>UTF-8\<close>

text \<open>
  \<open>s.encode()\<close> and a text file opened with \<open>encoding="utf-8"\<close>: a surrogate (and a value
  that is no code point) cannot be encoded.
\<close>

definition utf8_char :: "nat \<Rightarrow> byte list" where
  "utf8_char c =
     (if c < 0x80 then [of_nat c]
      else if c < 0x800 then [of_nat (0xC0 + c div 64), of_nat (0x80 + c mod 64)]
      else if c < 0x10000 then
        [of_nat (0xE0 + c div 4096), of_nat (0x80 + c div 64 mod 64), of_nat (0x80 + c mod 64)]
      else [of_nat (0xF0 + c div 262144), of_nat (0x80 + c div 4096 mod 64),
            of_nat (0x80 + c div 64 mod 64), of_nat (0x80 + c mod 64)])"

definition utf8 :: "ustr \<Rightarrow> byte list" where
  "utf8 s = concat (map utf8_char s)"

definition encodable :: "nat \<Rightarrow> bool" where
  "encodable c = (c < 0xD800 \<or> (0xDFFF < c \<and> c < 0x110000))"

definition str_encode :: "ustr \<Rightarrow> exn + byte list" where
  "str_encode s = (if list_all encodable s then Inr (utf8 s) else Inl UnicodeEncodeError)"

section \<open>The collaborators of \<open>lib/\<close> and the standard output\<close>

text \<open>
  Modelled from the spec: the class \<open>Message\<close> of \<open>lib/message.py\<close>, which is not among
  the sources. The spec gives it the attributes \<open>label\<close>, \<open>pointer\<close>, \<open>length\<close> and
  \<open>decoded\<close>; \<open>decode.py\<close> constructs it from one (label offset, data offset) pair of
  the pointer table and \<open>encode.py\<close> without arguments. A message is "created empty":
  no length (\<open>None\<close>), empty label and text, offsets 0.
\<close>

record message =
  label_pointer :: nat
  pointer :: nat
  length_m :: "int option"
  label :: ustr
  decoded :: ustr

definition Message :: "nat \<Rightarrow> nat \<Rightarrow> message" where
  "Message a b = \<lparr>label_pointer = a, pointer = b, length_m = None, label = [], decoded = []\<rparr>"

text \<open>
  The functions and data of \<open>lib/message.py\<close>, \<open>lib/tables.py\<close> and \<open>lib/lz11.py\<close>
  that the two source files call are parameters of the model:
  \<^item> \<open>lz11_decompress\<close>, \<open>lz11_compress\<close>: \<open>None\<close> when the call raises;
  \<^item> \<open>get_label\<close>: \<open>message.get_label(data, labels_position)\<close>, which reads the stream and
    updates the message, \<open>None\<close> when it raises;
  \<^item> \<open>message_decode\<close>: \<open>message.decode(data)\<close>, likewise;
  \<^item> \<open>message_encode\<close>: \<open>message.encode()\<close>, which returns a \<open>str\<close> describing an error
    (\<open>Inl\<close>) or the payload bytes (\<open>Inr\<close>);
  \<^item> \<open>message_str\<close>: \<open>str(message)\<close>;
  \<^item> \<open>commands_fffe\<close>: the table entry \<open>commands[0xfffe]\<close>, the text token of the stop
    marker.

  One more parameter belongs to the environment of the program: \<open>stdout_encodes\<close> tells
  which texts the encoding of \<open>sys.stdout\<close> can encode. \<open>print\<close> raises
  \<open>UnicodeEncodeError\<close> on any other text.
\<close>

record lib =
  lz11_decompress :: "byte list \<Rightarrow> byte list option"
  lz11_compress :: "byte list \<Rightarrow> byte list option"
  get_label :: "message \<Rightarrow> bytesio \<Rightarrow> nat \<Rightarrow> (message \<times> bytesio) option"
  message_decode :: "message \<Rightarrow> bytesio \<Rightarrow> (message \<times> bytesio) option"
  message_encode :: "message \<Rightarrow> ustr + byte list"
  message_str :: "message \<Rightarrow> ustr"
  commands_fffe :: ustr
  stdout_encodes :: "ustr \<Rightarrow> bool"

section \<open>\<open>decode.py\<close>: \<open>decode_1LMG\<close>\<close>

definition magic :: "byte list" where
  \<comment> \<open>\<open>b'1LMG'\<close>\<close>
  "magic = map of_char ''1LMG''"

text \<open>
  Lines 46 to 59: the header fields and the message count. The result is
  (\<open>mystery\<close>, \<open>data_length\<close>, \<open>string_length\<close>, \<open>message_count\<close>) and the stream, positioned
  behind the count.
\<close>

definition read_header :: "byte list \<Rightarrow> exn + (nat \<times> nat \<times> nat \<times> nat) \<times> bytesio" where
  "read_header bytes =
     (let data = bio_seek 4 (BytesIO bytes);
          (r1, data) = bio_read 4 data
      in case unpack_L r1 of Inl e \<Rightarrow> Inl e | Inr mystery \<Rightarrow>
     (let (r2, data) = bio_read 4 data
      in case unpack_L r2 of Inl e \<Rightarrow> Inl e | Inr data_length \<Rightarrow>
     (let (r3, data) = bio_read 4 data
      in case unpack_L r3 of Inl e \<Rightarrow> Inl e | Inr string_length \<Rightarrow>
     (let string_position = 0x34 + data_length;
          pointers_position = string_position + string_length;
          data = bio_seek pointers_position data;
          (r4, data) = bio_read 4 data
      in case unpack_L r4 of Inl e \<Rightarrow> Inl e | Inr message_count \<Rightarrow>
           Inr ((mystery, data_length, string_length, message_count), data)))))"

text \<open>
  Lines 77 to 83: the loop \<open>for m in range(1, message_count)\<close>, over the list of its
  indices. Each round appends the next message and sets the length of the one before it.
  The index \<open>m - 1\<close> is within the list in every round, since the list holds \<open>m\<close>
  messages when round \<open>m\<close> starts.
\<close>

fun read_pointers :: "nat list \<Rightarrow> bytesio \<Rightarrow> message list \<Rightarrow> exn + bytesio \<times> message list" where
  "read_pointers [] data messages = Inr (data, messages)"
| "read_pointers (m # ms) data messages =
     (let (r, data) = bio_read 8 data
      in case unpack_LL r of Inl e \<Rightarrow> Inl e | Inr (a, b) \<Rightarrow>
     (let messages = messages @ [Message a b];
          messages = messages[m - 1 := (messages ! (m - 1))
             \<lparr>length_m := Some (int (pointer (messages ! m)) - int (pointer (messages ! (m - 1))))\<rparr>]
      in read_pointers ms data messages))"

text \<open>
  Lines 72 to 85: the whole pointer table. The first pair is read outside the loop, and
  the last message's length is set after it.
\<close>

definition read_pointer_table :: "bytesio \<Rightarrow> nat \<Rightarrow> nat \<Rightarrow> exn + bytesio \<times> message list" where
  "read_pointer_table data message_count string_position =
     (let (r, data) = bio_read 8 data
      in case unpack_LL r of Inl e \<Rightarrow> Inl e | Inr (a, b) \<Rightarrow>
     (case (if message_count > 1 then read_pointers [1..<message_count] data [Message a b]
            else Inr (data, [Message a b])) of
        Inl e \<Rightarrow> Inl e
      | Inr (data, messages) \<Rightarrow>
          Inr (data, messages[length messages - 1 := (last messages)
                 \<lparr>length_m := Some (int string_position - int (pointer (last messages)))\<rparr>])))"

text \<open>Lines 89 to 92: every message reads its label and decodes its payload, in order.\<close>

fun decode_messages :: "lib \<Rightarrow> nat \<Rightarrow> message list \<Rightarrow> bytesio \<Rightarrow> (message list \<times> bytesio) option" where
  "decode_messages L labels_position [] data = Some ([], data)"
| "decode_messages L labels_position (message # rest) data =
     (case get_label L message data labels_position of None \<Rightarrow> None | Some (message, data) \<Rightarrow>
     (case message_decode L message data of None \<Rightarrow> None | Some (message, data) \<Rightarrow>
     (case decode_messages L labels_position rest data of None \<Rightarrow> None
      | Some (rest, data) \<Rightarrow> Some (message # rest, data))))"

text \<open>
  Lines 96 to 98. \<open>s[-k:]\<close> with \<open>k \<ge> 1\<close> is the last \<open>k\<close> elements of \<open>s\<close>, or all of
  \<open>s\<close> when it is shorter; \<open>s[:-1]\<close> is \<open>s\<close> without its last element.
\<close>

definition strip_trailing_pad :: "lib \<Rightarrow> nat \<Rightarrow> message list \<Rightarrow> message list" where
  "strip_trailing_pad L string_length messages =
     (if string_length = 4 then
        (if drop (length (decoded (last messages)) - (1 + length (commands_fffe L)))
                 (decoded (last messages)) = commands_fffe L @ ascii ''0''
         then messages[length messages - 1 := (last messages)
                 \<lparr>decoded := butlast (decoded (last messages))\<rparr>]
         else messages)
      else messages)"

text \<open>
  Lines 102 to 107: the messages are written one at a time, \<open>str(message)\<close> after
  \<open>str(message)\<close>, by \<open>print\<close> (with the empty separator) or by \<open>text_file.write\<close>. A
  text stream encodes a text when it is written: the write of a text that the encoding
  of the stream cannot encode raises \<open>UnicodeEncodeError\<close>, and what was written before
  it stays written. \<open>encodes\<close> tells which texts the stream can encode, \<open>written\<close> is
  what the stream holds; the result is what it holds in the end, and the exception if
  there is one.
\<close>

fun write_messages ::
  "(ustr \<Rightarrow> bool) \<Rightarrow> lib \<Rightarrow> message list \<Rightarrow> ustr \<Rightarrow> ustr \<times> exn option" where
  "write_messages encodes L [] written = (written, None)"
| "write_messages encodes L (message # rest) written =
     (if encodes (message_str L message)
      then write_messages encodes L rest (written @ message_str L message)
      else (written, Some UnicodeEncodeError))"

text \<open>
  Lines 102 to 113: the messages are printed, followed by a newline, or saved to the file
  at \<open>savepath\<close>, which is opened with the encoding UTF-8 and closed by the \<open>with\<close> block
  also when a write raises. UTF-8 encodes every text without a surrogate code point. Then
  the return value tells whether the decode was lossless.
\<close>

definition write_output :: "lib \<Rightarrow> ustr option \<Rightarrow> nat \<Rightarrow> message list \<Rightarrow> ustr outcome" where
  "write_output L savepath string_length messages =
     (case savepath of
        None \<Rightarrow>
          (case write_messages (stdout_encodes L) L messages [] of
             (printed, Some x) \<Rightarrow>
               \<lparr>stderr = [], stdout = Some printed, saved = None, ret = Inl x\<rparr>
           | (printed, None) \<Rightarrow>
               \<lparr>stderr = [], stdout = Some (printed @ ascii ''\<newline>''), saved = None,
                ret = Inr (if string_length = 4 then 0 else 1)\<rparr>)
      | Some path \<Rightarrow>
          (case write_messages (list_all encodable) L messages [] of
             (written, Some x) \<Rightarrow>
               \<lparr>stderr = [], stdout = None, saved = Some written, ret = Inl x\<rparr>
           | (written, None) \<Rightarrow>
               \<lparr>stderr = [], stdout = None, saved = Some written,
                ret = Inr (if string_length = 4 then 0 else 1)\<rparr>))"

text \<open>
  Lines 46 to 113: what \<open>decode_1LMG\<close> does once it holds the bytes of a container.
\<close>

definition decode_container :: "lib \<Rightarrow> ustr \<Rightarrow> byte list \<Rightarrow> ustr option \<Rightarrow> ustr outcome" where
  "decode_container L loadpath bytes savepath =
     (case read_header bytes of Inl e \<Rightarrow> raised e
      | Inr ((mystery, data_length, string_length, message_count), data) \<Rightarrow>
     (let string_position = 0x34 + data_length;
          pointers_position = string_position + string_length
      in if message_count = 0
         then failed (ascii ''1LMG is empty: '' @ loadpath @ ascii ''\<newline>'') (- 2)
         else
     (let pointers_length = 4 + message_count * 8;
          labels_position = pointers_position + pointers_length
      in case read_pointer_table data message_count string_position of Inl e \<Rightarrow> raised e
         | Inr (data, messages) \<Rightarrow>
     (case decode_messages L labels_position messages data of None \<Rightarrow> raised LibError
      | Some (messages, data) \<Rightarrow>
          write_output L savepath string_length
            (strip_trailing_pad L string_length messages)))))"

text \<open>
  \<open>decode_1LMG(loadpath, savepath, compress)\<close>, from the bytes read from \<open>loadpath\<close> on
  (lines 31 to 113). \<open>data[:4]\<close> is \<open>take 4\<close>, \<open>data[5:9]\<close> is \<open>take 4 (drop 5 data)\<close>.
\<close>

definition decode_1LMG :: "lib \<Rightarrow> ustr \<Rightarrow> byte list \<Rightarrow> ustr option \<Rightarrow> int \<Rightarrow> ustr outcome" where
  "decode_1LMG L loadpath data savepath compress =
     (if take 4 data \<noteq> magic then
        (if take 4 (drop 5 data) = magic then
           (if compress > 1 then
              (case lz11_decompress L data of
                 None \<Rightarrow> failed (ascii ''lz11 decompression failed: '' @ loadpath @ ascii ''\<newline>'') (- 3)
               | Some data \<Rightarrow> decode_container L loadpath data savepath)
            else failed (ascii ''1LMG File is compressed: '' @ loadpath @ ascii ''\<newline>'') (- 1))
         else failed (ascii ''File isn't 1LMG format: '' @ loadpath @ ascii ''\<newline>'') (- 1))
      else decode_container L loadpath data savepath)"

section \<open>\<open>encode.py\<close>: \<open>encode_1LMG\<close>\<close>

subsection \<open>The string methods the text parser uses\<close>

text \<open>
  \<open>s.split(sep)\<close> cuts \<open>s\<close> at the occurrences of \<open>sep\<close>, found from left to right
  without overlap; \<open>cur\<close> is the piece being collected. Python refuses an empty
  separator; both separators of the source are non-empty literals.
\<close>

function split_from :: "'a list \<Rightarrow> 'a list \<Rightarrow> 'a list \<Rightarrow> 'a list list" where
  "split_from sep cur [] = [cur]"
| "split_from sep cur (c # s) =
     (if sep \<noteq> [] \<and> take (length sep) (c # s) = sep
      then cur # split_from sep [] (drop (length sep) (c # s))
      else split_from sep (cur @ [c]) s)"
  by pat_completeness auto
termination
  by (relation "measure (\<lambda>(sep, cur, s). length s)") auto

definition split_py :: "'a list \<Rightarrow> 'a list \<Rightarrow> 'a list list" where
  \<comment> \<open>\<open>s.split(sep)\<close>\<close>
  "split_py s sep = split_from sep [] s"

text \<open>\<open>s.rfind(c)\<close> for a single character: the last index of \<open>c\<close> in \<open>s\<close>, or \<open>-1\<close>.\<close>

primrec rfind_from :: "nat \<Rightarrow> int \<Rightarrow> 'a \<Rightarrow> 'a list \<Rightarrow> int" where
  "rfind_from i r c [] = r"
| "rfind_from i r c (x # xs) = rfind_from (Suc i) (if x = c then int i else r) c xs"

definition rfind :: "'a list \<Rightarrow> 'a \<Rightarrow> int" where
  "rfind s c = rfind_from 0 (- 1) c s"

definition py_upto :: "'a list \<Rightarrow> int \<Rightarrow> 'a list" where
  \<comment> \<open>the slice \<open>s[:k]\<close>; a negative \<open>k\<close> counts from the end\<close>
  "py_upto s k = (if k < 0 then take (nat (int (length s) + k)) s else take (nat k) s)"

subsection \<open>Lines 31 to 48: from the text to the messages\<close>

text \<open>
  Lines 35 and 36: every segment but the last is cut at its last newline
  (\<open>data[i][:data[i].rfind('\n')]\<close>).
\<close>

fun cut_lines :: "ustr list \<Rightarrow> ustr list" where
  "cut_lines (x # y # ys) = py_upto x (rfind x 10) # cut_lines (y # ys)"
| "cut_lines xs = xs"

text \<open>
  Lines 38 to 48: the loop \<open>for i in range(0, len(data), 2)\<close>, two segments a round.
  With a single segment left, \<open>data[i+1]\<close> is out of range.
\<close>

fun text_messages :: "ustr list \<Rightarrow> exn + message list" where
  "text_messages [] = Inr []"
| "text_messages [x] = Inl IndexError"
| "text_messages (x # y # rest) =
     (case text_messages rest of Inl e \<Rightarrow> Inl e
      | Inr messages \<Rightarrow>
          Inr ((Message 0 0)\<lparr>label := hd (split_py x (ascii '' Position'')), decoded := y,
                              pointer := 0\<rparr> # messages))"

subsection \<open>Lines 51 to 91: from the messages to the bytes of the container\<close>

text \<open>How the build can stop early: an exception, or a message that does not encode.\<close>

datatype stop = Raise exn | EncodingError ustr

text \<open>Lines 62 to 69: the loop over the messages.\<close>

fun encode_messages ::
  "lib \<Rightarrow> message list \<Rightarrow> bytesio \<Rightarrow> bytesio \<Rightarrow> bytesio \<Rightarrow> stop + bytesio \<times> bytesio \<times> bytesio" where
  "encode_messages L [] table labels data = Inr (table, labels, data)"
| "encode_messages L (message # rest) table labels data =
     (let labels = bio_seek_end labels;
          data = bio_seek_end data
      in case pack_LL (pos labels) (pos data + 0x34) of Inl x \<Rightarrow> Inl (Raise x) | Inr p \<Rightarrow>
     (let table = bio_write p table
      in case message_encode L message of Inl e \<Rightarrow> Inl (EncodingError e) | Inr e \<Rightarrow>
     (let data = bio_write e data
      in case str_encode (label message) of Inl x \<Rightarrow> Inl (Raise x) | Inr l \<Rightarrow>
           encode_messages L rest table (bio_write (l @ [0]) labels) data)))"

definition align4 :: "bytesio \<Rightarrow> bytesio" where
  \<comment> \<open>\<open>temp = b.seek(0,2) % 4; if temp != 0: b.write(bytes(4-temp))\<close>\<close>
  "align4 b =
     (let b = bio_seek_end b;
          temp = pos b mod 4
      in if temp \<noteq> 0 then bio_write (replicate (4 - temp) 0) b else b)"

definition append_part :: "bytesio \<Rightarrow> bytesio \<Rightarrow> bytesio" where
  \<comment> \<open>\<open>part.seek(0); header.write(part.read())\<close>\<close>
  "append_part header part = bio_write (fst (bio_read_all (bio_seek 0 part))) header"

definition build_1LMG :: "lib \<Rightarrow> message list \<Rightarrow> stop + byte list" where
  "build_1LMG L messages =
     (let data = BytesIO [];
          strings = BytesIO ([0x2A] @ replicate 3 0);
          table = BytesIO []
      in case pack_L (length messages) of Inl x \<Rightarrow> Inl (Raise x) | Inr p \<Rightarrow>
     (let table = bio_write p table;
          labels = bio_write ([0x2A] @ replicate 1 0) (BytesIO [])
      in case encode_messages L messages table labels data of Inl x \<Rightarrow> Inl x
         | Inr (table, labels, data) \<Rightarrow>
     (let data = align4 data;
          labels = align4 labels;
          header = bio_seek_end (BytesIO magic);
          header = bio_write (replicate 4 0) header;
          data = bio_seek_end data;
          strings = bio_seek_end strings;
          table = bio_seek_end table;
          labels = bio_seek_end labels
      in case pack_LLL (pos data) (pos strings) (pos table + pos labels) of
           Inl x \<Rightarrow> Inl (Raise x)
         | Inr p \<Rightarrow>
     (let header = bio_write p header;
          header = bio_write (replicate 0x20 0) header;
          header = foldl append_part header [data, strings, table, labels];
          header = bio_seek 0 header
      in Inr (fst (bio_read_all header))))))"

subsection \<open>The whole function\<close>

text \<open>
  Lines 50 to 100: the container is built and saved. The output file is opened at line
  94, after the build; when \<open>lz11_compress\<close> raises inside the \<open>with\<close> block, the file
  exists and is empty. \<open>savepath[-3:]\<close> is the last three characters of the path.
\<close>

definition save_1LMG :: "lib \<Rightarrow> ustr \<Rightarrow> message list \<Rightarrow> ustr \<Rightarrow> int \<Rightarrow> byte list outcome" where
  "save_1LMG L loadpath messages savepath compress =
     (case build_1LMG L messages of
        Inl (Raise x) \<Rightarrow> raised x
      | Inl (EncodingError e) \<Rightarrow>
          failed (ascii ''File had encoding error: '' @ loadpath @ [10, 9] @ e
                  @ ascii ''\<newline>'') (- 3)
      | Inr container \<Rightarrow>
          (if (drop (length savepath - 3) savepath = ascii ''.lz'' \<and> compress = 2)
              \<or> compress = 3
           then (case lz11_compress L container of
                   None \<Rightarrow> \<lparr>stderr = [], stdout = None, saved = Some [], ret = Inl LibError\<rparr>
                 | Some z \<Rightarrow> \<lparr>stderr = [], stdout = None, saved = Some z, ret = Inr 0\<rparr>)
           else \<lparr>stderr = [], stdout = None, saved = Some container, ret = Inr 0\<rparr>))"

text \<open>
  \<open>encode_1LMG(loadpath, savepath, compress)\<close>, from the text read from \<open>loadpath\<close> on
  (lines 31 to 100). \<open>data.split('===\n')[1:]\<close> drops the first piece.
\<close>

definition encode_1LMG :: "lib \<Rightarrow> ustr \<Rightarrow> ustr \<Rightarrow> ustr \<Rightarrow> int \<Rightarrow> byte list outcome" where
  "encode_1LMG L loadpath text savepath compress =
     (let data = drop 1 (split_py text (ascii ''===\<newline>''))
      in if length data mod 2 \<noteq> 0
         then failed (ascii ''Mismatching number of labels and messages: '' @ loadpath
                      @ ascii ''\<newline>'') (- 1)
         else
     (case text_messages (cut_lines data) of Inl x \<Rightarrow> raised x
      | Inr messages \<Rightarrow> save_1LMG L loadpath messages savepath compress))"

section \<open>A sample library\<close>

text \<open>
  Concrete stand-ins for the functions of \<open>lib/\<close>, used only to evaluate the model on
  concrete files: a message payload holds one byte per character, a label is read up to
  its zero byte, the stop marker is written \<open>[STOP]\<close>, a message is rendered between
  separator lines, the codec stores its input behind five bytes, and the standard output
  is encoded in UTF-8.
\<close>

definition sample_lib :: lib where
  "sample_lib =
     \<lparr>lz11_decompress = (\<lambda>d. if length d < 9 then None else Some (drop 5 d)),
      lz11_compress = (\<lambda>d. Some (replicate 5 0 @ d)),
      get_label = (\<lambda>m data labels_position.
         Some (m\<lparr>label := map unat (takeWhile (\<lambda>b. b \<noteq> 0)
                  (drop (labels_position + label_pointer m) (buf data)))\<rparr>, data)),
      message_decode = (\<lambda>m data.
         Some (m\<lparr>decoded := map unat (take (case length_m m of None \<Rightarrow> 0 | Some n \<Rightarrow> nat n)
                                   (drop (pointer m) (buf data)))\<rparr>, data)),
      message_encode = (\<lambda>m. if list_all (\<lambda>c. c < 256) (decoded m)
         then Inr (map of_nat (decoded m)) else Inl (ascii ''bad character'')),
      message_str = (\<lambda>m. ascii ''===\<newline>'' @ label m @ ascii ''\<newline>===\<newline>''
         @ decoded m @ ascii ''\<newline>''),
      commands_fffe = ascii ''[STOP]'',
      stdout_encodes = list_all encodable\<rparr>"

section \<open>The container layout in the words of the spec\<close>

text \<open>
  These definitions are not taken from the source: they write down the layout the
  specification describes, to be compared with what the source computes.
\<close>

definition u32_at :: "byte list \<Rightarrow> nat \<Rightarrow> nat" where
  \<comment> \<open>the unsigned little-endian 32-bit value stored at an offset\<close>
  "u32_at bs off = de32 (take 4 (drop off bs))"

definition spec_pad4 :: "byte list \<Rightarrow> byte list" where
  \<comment> \<open>a buffer zero-padded to a 4-byte boundary\<close>
  "spec_pad4 bs = bs @ replicate ((4 - length bs mod 4) mod 4) 0"

definition spec_label_buffer :: "message list \<Rightarrow> byte list" where
  \<comment> \<open>one placeholder byte pair, then every label, each terminated by a zero byte\<close>
  "spec_label_buffer ms = [0x2A, 0] @ concat (map (\<lambda>m. utf8 (label m) @ [0]) ms)"

definition spec_table_pair :: "message list \<Rightarrow> byte list list \<Rightarrow> nat \<Rightarrow> byte list" where
  \<comment> \<open>the pair of message \<open>i\<close>: the length of the label buffer before its label is appended,
      and the length of the data buffer before its payload is appended plus the header size\<close>
  "spec_table_pair ms ps i =
     le32 (length (spec_label_buffer (take i ms))) @ le32 (length (concat (take i ps)) + 0x34)"

definition spec_pointer_table :: "message list \<Rightarrow> byte list list \<Rightarrow> byte list" where
  "spec_pointer_table ms ps = le32 (length ms) @ concat (map (spec_table_pair ms ps) [0..<length ms])"

definition payloads :: "lib \<Rightarrow> message list \<Rightarrow> byte list list" where
  \<comment> \<open>the encoded byte payload of every message (none for a message that does not encode)\<close>
  "payloads L ms = map (\<lambda>m. case message_encode L m of Inl e \<Rightarrow> [] | Inr p \<Rightarrow> p) ms"

definition spec_header :: "nat \<Rightarrow> nat \<Rightarrow> nat \<Rightarrow> byte list" where
  \<comment> \<open>magic, mystery, data length, string length, table length, 32 reserved bytes\<close>
  "spec_header data_length string_length table_length =
     magic @ replicate 4 0 @ le32 data_length @ le32 string_length @ le32 table_length
     @ replicate 32 0"

definition spec_container :: "message list \<Rightarrow> byte list list \<Rightarrow> byte list" where
  \<comment> \<open>the container of the messages \<open>ms\<close> with the payloads \<open>ps\<close>\<close>
  "spec_container ms ps =
     spec_header (length (spec_pad4 (concat ps))) 4
       (4 + length ms * 8 + length (spec_pad4 (spec_label_buffer ms)))
     @ spec_pad4 (concat ps) @ [0x2A, 0, 0, 0] @ spec_pointer_table ms ps
     @ spec_pad4 (spec_label_buffer ms)"

text \<open>
  The pointer table as the specification describes it. The string section starts behind
  the header and the data, the pointer table behind the string section; the table holds
  the message count and one (label offset, data offset) pair for each message, and the
  labels follow it. The length of a message is derived: the next message's data offset
  minus its own, and for the last message the start of the string section minus its own
  data offset.
\<close>

definition spec_string_position :: "byte list \<Rightarrow> nat" where
  "spec_string_position bytes = 0x34 + u32_at bytes 8"

definition spec_table_position :: "byte list \<Rightarrow> nat" where
  "spec_table_position bytes = 0x34 + u32_at bytes 8 + u32_at bytes 12"

definition spec_message_count :: "byte list \<Rightarrow> nat" where
  "spec_message_count bytes = u32_at bytes (spec_table_position bytes)"

definition spec_labels_position :: "byte list \<Rightarrow> nat" where
  "spec_labels_position bytes = spec_table_position bytes + 4 + 8 * spec_message_count bytes"

definition spec_data_offset :: "byte list \<Rightarrow> nat \<Rightarrow> nat" where
  \<comment> \<open>the data offset of message \<open>i\<close>: the second value of pair \<open>i\<close>\<close>
  "spec_data_offset bytes i = u32_at bytes (spec_table_position bytes + 4 + 8 * i + 4)"

definition spec_message :: "byte list \<Rightarrow> nat \<Rightarrow> message" where
  \<comment> \<open>message \<open>i\<close> as it is handed to \<open>get_label\<close> and \<open>decode\<close>\<close>
  "spec_message bytes i =
     \<lparr>label_pointer = u32_at bytes (spec_table_position bytes + 4 + 8 * i),
      pointer = spec_data_offset bytes i,
      length_m = Some (if i + 1 < spec_message_count bytes
         then int (spec_data_offset bytes (i + 1)) - int (spec_data_offset bytes i)
         else int (spec_string_position bytes) - int (spec_data_offset bytes i)),
      label = [], decoded = []\<rparr>"

definition spec_messages :: "byte list \<Rightarrow> message list" where
  "spec_messages bytes = map (spec_message bytes) [0..<spec_message_count bytes]"

section \<open>Sample files\<close>

definition table3 :: "byte list" where
  \<comment> \<open>three pointer-table pairs, with the data offsets \<open>0x34\<close>, \<open>0x34+10\<close> and \<open>0x34+10+5\<close>\<close>
  "table3 = le32 2 @ le32 0x34 @ le32 4 @ le32 (0x34 + 10) @ le32 6 @ le32 (0x34 + 10 + 5)"

definition three_container :: "byte list" where
  \<comment> \<open>a container with the pointer table \<open>table3\<close>: 22 bytes of data, of which the three
      messages hold 10, 5 and 7, and the labels \<open>a\<close>, \<open>b\<close>, \<open>c\<close>\<close>
  "three_container =
     magic @ replicate 4 0 @ le32 22 @ le32 4 @ le32 36 @ replicate 32 0
     @ map of_char ''0123456789abcdeABCDEFG'' @ [0x2A, 0, 0, 0]
     @ le32 3 @ table3 @ [0x2A, 0, 0x61, 0, 0x62, 0, 0x63, 0]"

definition stop_container :: "string \<Rightarrow> byte list \<Rightarrow> byte list" where
  \<comment> \<open>a container with the given string section and one message, labelled \<open>a\<close>, whose
      payload the sample library decodes to the given text\<close>
  "stop_container payload strings =
     magic @ replicate 4 0 @ le32 (length payload) @ le32 (length strings) @ le32 16
     @ replicate 32 0 @ map of_char payload @ strings
     @ le32 1 @ le32 2 @ le32 0x34 @ [0x2A, 0, 0x61, 0]"

definition empty_container :: "byte list" where
  \<comment> \<open>a container with the message count 0: header, no data, string section, table, labels\<close>
  "empty_container =
     magic @ replicate 4 0 @ le32 0 @ le32 4 @ le32 8 @ replicate 32 0
     @ [0x2A, 0, 0, 0] @ le32 0 @ [0x2A, 0, 0, 0]"

definition shifted_magic :: "byte list" where
  \<comment> \<open>a file with the magic at offset 5, as a compressed container has it\<close>
  "shifted_magic = [0x11, 0x40, 0, 0, 0] @ magic @ replicate 4 0"

definition no_magic :: "byte list" where
  \<comment> \<open>a file with the magic neither at offset 0 nor at offset 5\<close>
  "no_magic = map of_char ''not a container''"

definition text_odd :: ustr where
  \<comment> \<open>a text with a label and no message text: one segment behind the first separator\<close>
  "text_odd = ascii ''===\<newline>label without text\<newline>''"

definition text_one :: ustr where
  \<comment> \<open>a text with one message: the label \<open>a\<close> (with a position note) and the text \<open>hi\<close>\<close>
  "text_one = ascii ''===\<newline>a Position 1\<newline>===\<newline>hi\<newline>''"

definition sample_message :: message where
  "sample_message = (Message 0 0)\<lparr>label := ascii ''a'', decoded := ascii ''hi''\<rparr>"

definition sample_container :: "byte list" where
  \<comment> \<open>the container of \<open>sample_message\<close>: header, data, string section, table, labels\<close>
  "sample_container =
     [0x31, 0x4C, 0x4D, 0x47,  0, 0, 0, 0,  4, 0, 0, 0,  4, 0, 0, 0,  16, 0, 0, 0] @ replicate 32 0
     @ [0x68, 0x69, 0, 0] @ [0x2A, 0, 0, 0]
     @ [1, 0, 0, 0,  2, 0, 0, 0,  0x34, 0, 0, 0] @ [0x2A, 0, 0x61, 0]"

definition mystery_container :: "byte list" where
  \<comment> \<open>the same container with the mystery field 1 instead of 0\<close>
  "mystery_container = take 4 sample_container @ [1, 0, 0, 0] @ drop 8 sample_container"

definition bad_message :: message where
  \<comment> \<open>a message the sample library cannot encode: its text holds a character above 255\<close>
  "bad_message = (Message 0 0)\<lparr>label := ascii ''b'', decoded := [0x3042]\<rparr>"

definition text_one_container :: "byte list" where
  \<comment> \<open>the container of \<open>text_one\<close>: the label \<open>a\<close>, the payload \<open>hi\<close> and a newline\<close>
  "text_one_container =
     [0x31, 0x4C, 0x4D, 0x47,  0, 0, 0, 0,  4, 0, 0, 0,  4, 0, 0, 0,  16, 0, 0, 0] @ replicate 32 0
     @ [0x68, 0x69, 0x0A, 0] @ [0x2A, 0, 0, 0]
     @ [1, 0, 0, 0,  2, 0, 0, 0,  0x34, 0, 0, 0] @ [0x2A, 0, 0x61, 0]"

definition roundtrip_text :: ustr where
  \<comment> \<open>what the sample library renders for \<open>mystery_container\<close>\<close>
  "roundtrip_text = ascii ''===\<newline>a\<newline>===\<newline>hi'' @ [0, 0] @ ascii ''\<newline>''"

definition roundtrip_container :: "byte list" where
  \<comment> \<open>the container of \<open>roundtrip_text\<close>\<close>
  "roundtrip_container =
     [0x31, 0x4C, 0x4D, 0x47,  0, 0, 0, 0,  8, 0, 0, 0,  4, 0, 0, 0,  16, 0, 0, 0] @ replicate 32 0
     @ [0x68, 0x69, 0, 0, 0x0A, 0, 0, 0] @ [0x2A, 0, 0, 0]
     @ [1, 0, 0, 0,  2, 0, 0, 0,  0x34, 0, 0, 0] @ [0x2A, 0, 0x61, 0]"

definition message_one :: message where
  \<comment> \<open>the message of \<open>text_one\<close>; the last segment keeps its newline\<close>
  "message_one = (Message 0 0)\<lparr>label := ascii ''a'', decoded := ascii ''hi\<newline>'', pointer := 0\<rparr>"

definition message_roundtrip :: message where
  \<comment> \<open>the message of \<open>roundtrip_text\<close>\<close>
  "message_roundtrip
     = (Message 0 0)\<lparr>label := ascii ''a'', decoded := ascii ''hi'' @ [0, 0] @ ascii ''\<newline>'',
                       pointer := 0\<rparr>"

section \<open>The pointer table (decode)\<close>

lemma unpack_LL_read:
  assumes "unpack_LL (fst (bio_read 8 data)) = Inr (a, b)"
  shows "a = u32_at (buf data) (pos data)" "b = u32_at (buf data) (pos data + 4)"
    "snd (bio_read 8 data) = data\<lparr>pos := pos data + 8\<rparr>"
  using assms
  by (auto simp: unpack_LL_def bio_read_def Let_def u32_at_def drop_take add.commute split: if_splits)

lemma read_pointers_spec:
  assumes "read_pointers [m..<n] data ms = Inr (data', ms')"
    and "length ms = m" and "1 \<le> m" and "m \<le> n"
  shows "length ms' = n \<and> buf data' = buf data \<and> pos data' = pos data + 8 * (n - m)
    \<and> (\<forall>i<m. pointer (ms' ! i) = pointer (ms ! i))
    \<and> (\<forall>i. i + 1 < m \<longrightarrow> length_m (ms' ! i) = length_m (ms ! i))
    \<and> (\<forall>i. m \<le> i \<and> i < n \<longrightarrow> pointer (ms' ! i) = u32_at (buf data) (pos data + 8 * (i - m) + 4))
    \<and> (\<forall>i. m \<le> i + 1 \<and> i + 1 < n \<longrightarrow>
          length_m (ms' ! i) = Some (int (pointer (ms' ! (i + 1))) - int (pointer (ms' ! i))))"
  using assms
proof (induction "n - m" arbitrary: m data ms)
  case 0
  then show ?case by auto
next
  case (Suc k)
  then have mn: "m < n" and k: "k = n - Suc m" by simp_all
  have upt: "[m..<n] = m # [Suc m..<n]" using mn by (simp add: upt_conv_Cons)
  obtain r d1 where rd: "bio_read 8 data = (r, d1)" by (cases "bio_read 8 data")
  from Suc.prems(1) obtain a b where ab: "unpack_LL r = Inr (a, b)"
    by (auto simp: upt rd split: sum.splits)
  define ms1 where "ms1 = ms @ [Message a b]"
  define ms2 where "ms2 = ms1[m - 1 := (ms1 ! (m - 1))
             \<lparr>length_m := Some (int (pointer (ms1 ! m)) - int (pointer (ms1 ! (m - 1))))\<rparr>]"
  have rec: "read_pointers [Suc m..<n] d1 ms2 = Inr (data', ms')"
    using Suc.prems(1) by (simp add: upt rd ab ms1_def ms2_def Let_def)
  have len2: "length ms2 = Suc m" using Suc.prems(2) by (simp add: ms2_def ms1_def)
  note u = unpack_LL_read[of data a b, unfolded rd, simplified, OF ab]
  have d1: "buf d1 = buf data" "pos d1 = pos data + 8" using u(3) by simp_all
  have IH: "length ms' = n \<and> buf data' = buf d1 \<and> pos data' = pos d1 + 8 * (n - Suc m)
    \<and> (\<forall>i<Suc m. pointer (ms' ! i) = pointer (ms2 ! i))
    \<and> (\<forall>i. i + 1 < Suc m \<longrightarrow> length_m (ms' ! i) = length_m (ms2 ! i))
    \<and> (\<forall>i. Suc m \<le> i \<and> i < n \<longrightarrow> pointer (ms' ! i) = u32_at (buf d1) (pos d1 + 8 * (i - Suc m) + 4))
    \<and> (\<forall>i. Suc m \<le> i + 1 \<and> i + 1 < n \<longrightarrow>
          length_m (ms' ! i) = Some (int (pointer (ms' ! (i + 1))) - int (pointer (ms' ! i))))"
    using Suc.hyps(1)[OF k rec len2] mn by simp
  have p2: "\<And>i. i < Suc m \<Longrightarrow> pointer (ms2 ! i) = pointer (ms1 ! i)"
    using Suc.prems(2) by (simp add: ms2_def ms1_def nth_list_update)
  have p1: "\<And>i. i < m \<Longrightarrow> ms1 ! i = ms ! i" "ms1 ! m = Message a b"
    using Suc.prems(2) by (auto simp: ms1_def nth_append)
  have l2: "\<And>i. i + 1 < m \<Longrightarrow> length_m (ms2 ! i) = length_m (ms ! i)"
    using Suc.prems(2) by (simp add: ms2_def ms1_def nth_list_update nth_append)
  have l2m: "length_m (ms2 ! (m - 1)) = Some (int (pointer (ms1 ! m)) - int (pointer (ms1 ! (m - 1))))"
    using Suc.prems(2,3) by (simp add: ms2_def ms1_def)
  have c1: "length ms' = n" "buf data' = buf data" "pos data' = pos data + 8 * (n - m)"
    using IH d1 mn by auto
  have c2: "\<forall>i<m. pointer (ms' ! i) = pointer (ms ! i)"
    using IH p2 p1 by simp
  have c3: "\<forall>i. i + 1 < m \<longrightarrow> length_m (ms' ! i) = length_m (ms ! i)"
    using IH l2 by simp
  have pm: "pointer (ms' ! m) = b" using IH p2[of m] p1(2) by (simp add: Message_def)
  have c4: "\<forall>i. m \<le> i \<and> i < n \<longrightarrow> pointer (ms' ! i) = u32_at (buf data) (pos data + 8 * (i - m) + 4)"
  proof (intro allI impI)
    fix i assume i: "m \<le> i \<and> i < n"
    show "pointer (ms' ! i) = u32_at (buf data) (pos data + 8 * (i - m) + 4)"
    proof (cases "i = m")
      case True
      then show ?thesis using pm u(2) by simp
    next
      case False
      then have "Suc m \<le> i \<and> i < n" using i by simp
      then have "pointer (ms' ! i) = u32_at (buf d1) (pos d1 + 8 * (i - Suc m) + 4)" using IH by blast
      moreover have "pos d1 + 8 * (i - Suc m) + 4 = pos data + 8 * (i - m) + 4"
        using d1(2) False i by auto
      ultimately show ?thesis using d1(1) by (simp only:)
    qed
  qed
  have c5: "\<forall>i. m \<le> i + 1 \<and> i + 1 < n \<longrightarrow>
          length_m (ms' ! i) = Some (int (pointer (ms' ! (i + 1))) - int (pointer (ms' ! i)))"
  proof (intro allI impI)
    fix i assume i: "m \<le> i + 1 \<and> i + 1 < n"
    show "length_m (ms' ! i) = Some (int (pointer (ms' ! (i + 1))) - int (pointer (ms' ! i)))"
    proof (cases "i + 1 = m")
      case True
      then have im: "i = m - 1" "i < Suc m" "i + 1 < Suc m" "Suc i = m" by simp_all
      have "length_m (ms' ! i) = length_m (ms2 ! i)" using IH im by blast
      also have "\<dots> = Some (int (pointer (ms1 ! m)) - int (pointer (ms1 ! (m - 1))))"
        using l2m im by simp
      also have "pointer (ms1 ! m) = pointer (ms' ! (i + 1))"
        using IH p2[of m] im by simp
      also have "pointer (ms1 ! (m - 1)) = pointer (ms' ! i)"
        using IH p2[of i] im by simp
      finally show ?thesis .
    next
      case False
      then have "Suc m \<le> i + 1 \<and> i + 1 < n" using i by simp
      then show ?thesis using IH by blast
    qed
  qed
  show ?case using c1 c2 c3 c4 c5 by blast
qed

lemma read_pointers_fields:
  assumes "read_pointers [m..<n] data ms = Inr (data', ms')"
    and "length ms = m" and "1 \<le> m" and "m \<le> n"
  shows "(\<forall>i<m. label_pointer (ms' ! i) = label_pointer (ms ! i) \<and> label (ms' ! i) = label (ms ! i)
            \<and> decoded (ms' ! i) = decoded (ms ! i))
    \<and> (\<forall>i. m \<le> i \<and> i < n \<longrightarrow> label_pointer (ms' ! i) = u32_at (buf data) (pos data + 8 * (i - m))
            \<and> label (ms' ! i) = [] \<and> decoded (ms' ! i) = [])"
  using assms
proof (induction "n - m" arbitrary: m data ms)
  case 0
  then show ?case by auto
next
  case (Suc k)
  then have mn: "m < n" and k: "k = n - Suc m" by simp_all
  have upt: "[m..<n] = m # [Suc m..<n]" using mn by (simp add: upt_conv_Cons)
  obtain r d1 where rd: "bio_read 8 data = (r, d1)" by (cases "bio_read 8 data")
  from Suc.prems(1) obtain a b where ab: "unpack_LL r = Inr (a, b)"
    by (auto simp: upt rd split: sum.splits)
  define ms1 where "ms1 = ms @ [Message a b]"
  define ms2 where "ms2 = ms1[m - 1 := (ms1 ! (m - 1))
             \<lparr>length_m := Some (int (pointer (ms1 ! m)) - int (pointer (ms1 ! (m - 1))))\<rparr>]"
  have rec: "read_pointers [Suc m..<n] d1 ms2 = Inr (data', ms')"
    using Suc.prems(1) by (simp add: upt rd ab ms1_def ms2_def Let_def)
  have len2: "length ms2 = Suc m" using Suc.prems(2) by (simp add: ms2_def ms1_def)
  note u = unpack_LL_read[of data a b, unfolded rd, simplified, OF ab]
  have d1: "buf d1 = buf data" "pos d1 = pos data + 8" using u(3) by simp_all
  have IH: "(\<forall>i<Suc m. label_pointer (ms' ! i) = label_pointer (ms2 ! i) \<and> label (ms' ! i) = label (ms2 ! i)
            \<and> decoded (ms' ! i) = decoded (ms2 ! i))
    \<and> (\<forall>i. Suc m \<le> i \<and> i < n \<longrightarrow> label_pointer (ms' ! i) = u32_at (buf d1) (pos d1 + 8 * (i - Suc m))
            \<and> label (ms' ! i) = [] \<and> decoded (ms' ! i) = [])"
    using Suc.hyps(1)[OF k rec len2] mn by simp
  have p2: "\<And>i. i < Suc m \<Longrightarrow> label_pointer (ms2 ! i) = label_pointer (ms1 ! i)
      \<and> label (ms2 ! i) = label (ms1 ! i) \<and> decoded (ms2 ! i) = decoded (ms1 ! i)"
    using Suc.prems(2) by (simp add: ms2_def ms1_def nth_list_update)
  have p1: "\<And>i. i < m \<Longrightarrow> ms1 ! i = ms ! i" "ms1 ! m = Message a b"
    using Suc.prems(2) by (auto simp: ms1_def nth_append)
  have c1: "\<forall>i<m. label_pointer (ms' ! i) = label_pointer (ms ! i) \<and> label (ms' ! i) = label (ms ! i)
            \<and> decoded (ms' ! i) = decoded (ms ! i)"
    using IH p2 p1 by simp
  have pm: "label_pointer (ms' ! m) = a \<and> label (ms' ! m) = [] \<and> decoded (ms' ! m) = []"
    using IH p2[of m] p1(2) by (simp add: Message_def)
  have c2: "\<forall>i. m \<le> i \<and> i < n \<longrightarrow> label_pointer (ms' ! i) = u32_at (buf data) (pos data + 8 * (i - m))
            \<and> label (ms' ! i) = [] \<and> decoded (ms' ! i) = []"
  proof (intro allI impI)
    fix i assume i: "m \<le> i \<and> i < n"
    show "label_pointer (ms' ! i) = u32_at (buf data) (pos data + 8 * (i - m))
            \<and> label (ms' ! i) = [] \<and> decoded (ms' ! i) = []"
    proof (cases "i = m")
      case True
      then show ?thesis using pm u(1) by simp
    next
      case False
      then have "Suc m \<le> i \<and> i < n" using i by simp
      then have "label_pointer (ms' ! i) = u32_at (buf d1) (pos d1 + 8 * (i - Suc m))
            \<and> label (ms' ! i) = [] \<and> decoded (ms' ! i) = []" using IH by blast
      moreover have "pos d1 + 8 * (i - Suc m) = pos data + 8 * (i - m)"
        using d1(2) False i by auto
      ultimately show ?thesis using d1(1) by (simp only:)
    qed
  qed
  show ?case using c1 c2 by blast
qed

lemma read_pointer_table_spec:
  assumes "read_pointer_table data count spos = Inr (data', ms)" and "1 \<le> count"
  shows "length ms = count \<and> buf data' = buf data \<and> pos data' = pos data + 8 * count
    \<and> (\<forall>i<count. pointer (ms ! i) = u32_at (buf data) (pos data + 8 * i + 4))
    \<and> (\<forall>i<count. label_pointer (ms ! i) = u32_at (buf data) (pos data + 8 * i)
          \<and> label (ms ! i) = [] \<and> decoded (ms ! i) = [])
    \<and> (\<forall>i. i + 1 < count \<longrightarrow>
          length_m (ms ! i) = Some (int (pointer (ms ! (i + 1))) - int (pointer (ms ! i))))
    \<and> length_m (last ms) = Some (int spos - int (pointer (last ms)))"
proof -
  obtain r d1 where rd: "bio_read 8 data = (r, d1)" by (cases "bio_read 8 data")
  from assms(1) obtain a b where ab: "unpack_LL r = Inr (a, b)"
    by (auto simp: read_pointer_table_def rd split: sum.splits)
  note u = unpack_LL_read[of data a b, unfolded rd, simplified, OF ab]
  have d1: "buf d1 = buf data" "pos d1 = pos data + 8" using u(3) by simp_all
  define loop where "loop = (if count > 1 then read_pointers [1..<count] d1 [Message a b]
            else Inr (d1, [Message a b]))"
  from assms(1) obtain ms2 where l: "loop = Inr (data', ms2)"
    and ms: "ms = ms2[length ms2 - 1 := (last ms2)
                 \<lparr>length_m := Some (int spos - int (pointer (last ms2)))\<rparr>]"
    by (auto simp: read_pointer_table_def rd ab loop_def split: sum.splits if_splits)
  have inv: "length ms2 = count
    \<and> (\<forall>i<count. pointer (ms2 ! i) = u32_at (buf data) (pos data + 8 * i + 4))
    \<and> (\<forall>i. i + 1 < count \<longrightarrow>
          length_m (ms2 ! i) = Some (int (pointer (ms2 ! (i + 1))) - int (pointer (ms2 ! i))))"
    and str: "buf data' = buf data" "pos data' = pos data + 8 * count"
    and fld: "\<forall>i<count. label_pointer (ms2 ! i) = u32_at (buf data) (pos data + 8 * i)
          \<and> label (ms2 ! i) = [] \<and> decoded (ms2 ! i) = []"
  proof -
    show "length ms2 = count
    \<and> (\<forall>i<count. pointer (ms2 ! i) = u32_at (buf data) (pos data + 8 * i + 4))
    \<and> (\<forall>i. i + 1 < count \<longrightarrow>
          length_m (ms2 ! i) = Some (int (pointer (ms2 ! (i + 1))) - int (pointer (ms2 ! i))))"
    proof (cases "count > 1")
      case True
      then have rp: "read_pointers [1..<count] d1 [Message a b] = Inr (data', ms2)"
        using l by (simp add: loop_def)
      have s: "length ms2 = count
        \<and> (\<forall>i<1. pointer (ms2 ! i) = pointer ([Message a b] ! i))
        \<and> (\<forall>i. 1 \<le> i \<and> i < count \<longrightarrow> pointer (ms2 ! i) = u32_at (buf d1) (pos d1 + 8 * (i - 1) + 4))
        \<and> (\<forall>i. 1 \<le> i + 1 \<and> i + 1 < count \<longrightarrow>
            length_m (ms2 ! i) = Some (int (pointer (ms2 ! (i + 1))) - int (pointer (ms2 ! i))))"
        using read_pointers_spec[OF rp] True by simp
      have "pointer (ms2 ! i) = u32_at (buf data) (pos data + 8 * i + 4)" if "i < count" for i
      proof (cases "i = 0")
        case True
        then show ?thesis using s u(2) by (simp add: Message_def)
      next
        case False
        then have "pointer (ms2 ! i) = u32_at (buf d1) (pos d1 + 8 * (i - 1) + 4)"
          using s that by simp
        moreover have "pos d1 + 8 * (i - 1) + 4 = pos data + 8 * i + 4"
          using d1(2) False by auto
        ultimately show ?thesis using d1(1) by (simp only:)
      qed
      then show ?thesis using s by simp
    next
      case False
      then have "count = 1" "ms2 = [Message a b]" using assms(2) l by (auto simp: loop_def)
      then show ?thesis using u(2) by (simp add: Message_def)
    qed
    show "buf data' = buf data" "pos data' = pos data + 8 * count"
    proof -
      have "buf data' = buf data \<and> pos data' = pos data + 8 * count"
      proof (cases "count > 1")
        case True
        then have rp: "read_pointers [1..<count] d1 [Message a b] = Inr (data', ms2)"
          using l by (simp add: loop_def)
        have "buf data' = buf d1 \<and> pos data' = pos d1 + 8 * (count - 1)"
          using read_pointers_spec[OF rp] True by simp
        then show ?thesis using d1 True by auto
      next
        case False
        then have "count = 1" "data' = d1" using assms(2) l by (auto simp: loop_def)
        then show ?thesis using d1 by simp
      qed
      then show "buf data' = buf data" "pos data' = pos data + 8 * count" by simp_all
    qed
    show "\<forall>i<count. label_pointer (ms2 ! i) = u32_at (buf data) (pos data + 8 * i)
          \<and> label (ms2 ! i) = [] \<and> decoded (ms2 ! i) = []"
    proof (cases "count > 1")
      case True
      then have rp: "read_pointers [1..<count] d1 [Message a b] = Inr (data', ms2)"
        using l by (simp add: loop_def)
      have s: "(\<forall>i<1. label_pointer (ms2 ! i) = label_pointer ([Message a b] ! i)
            \<and> label (ms2 ! i) = label ([Message a b] ! i)
            \<and> decoded (ms2 ! i) = decoded ([Message a b] ! i))
        \<and> (\<forall>i. 1 \<le> i \<and> i < count \<longrightarrow>
              label_pointer (ms2 ! i) = u32_at (buf d1) (pos d1 + 8 * (i - 1))
            \<and> label (ms2 ! i) = [] \<and> decoded (ms2 ! i) = [])"
        using read_pointers_fields[OF rp] True by simp
      have "label_pointer (ms2 ! i) = u32_at (buf data) (pos data + 8 * i)
          \<and> label (ms2 ! i) = [] \<and> decoded (ms2 ! i) = []" if "i < count" for i
      proof (cases "i = 0")
        case True
        then show ?thesis using s u(1) by (simp add: Message_def)
      next
        case False
        then have "label_pointer (ms2 ! i) = u32_at (buf d1) (pos d1 + 8 * (i - 1))
            \<and> label (ms2 ! i) = [] \<and> decoded (ms2 ! i) = []"
          using s that by simp
        moreover have "pos d1 + 8 * (i - 1) = pos data + 8 * i"
          using d1(2) False by auto
        ultimately show ?thesis using d1(1) by (simp only:)
      qed
      then show ?thesis by simp
    next
      case False
      then have "count = 1" "ms2 = [Message a b]" using assms(2) l by (auto simp: loop_def)
      then show ?thesis using u(1) by (simp add: Message_def)
    qed
  qed
  have ne: "ms2 \<noteq> []" using inv assms(2) by auto
  have lastix: "last ms2 = ms2 ! (count - 1)" using inv ne by (simp add: last_conv_nth)
  have len: "length ms = count" using inv ms by simp
  have ptr: "pointer (ms ! i) = pointer (ms2 ! i)" if "i < count" for i
    using that inv ms lastix by (simp add: nth_list_update)
  have oth: "label_pointer (ms ! i) = label_pointer (ms2 ! i) \<and> label (ms ! i) = label (ms2 ! i)
      \<and> decoded (ms ! i) = decoded (ms2 ! i)" if "i < count" for i
    using that inv ms lastix by (simp add: nth_list_update)
  have lm: "length_m (ms ! i) = length_m (ms2 ! i)" if "i + 1 < count" for i
    using that inv ms by (simp add: nth_list_update)
  have lastms: "last ms = (last ms2)\<lparr>length_m := Some (int spos - int (pointer (last ms2)))\<rparr>"
    using ne inv ms len assms(2) by (simp add: last_conv_nth)
  show ?thesis
    using len str inv fld ptr oth lm lastms by simp
qed

lemma read_pointers_total:
  "pos data + 8 * length idx \<le> length (buf data) \<Longrightarrow>
   \<exists>d' ms'. read_pointers idx data ms = Inr (d', ms')"
proof (induction idx arbitrary: data ms)
  case Nil
  then show ?case by simp
next
  case (Cons m idx)
  have r: "bio_read 8 data = (take 8 (drop (pos data) (buf data)), data\<lparr>pos := pos data + 8\<rparr>)"
    using Cons.prems by (simp add: bio_read_def Let_def)
  have u: "unpack_LL (take 8 (drop (pos data) (buf data)))
      = Inr (de32 (take 4 (take 8 (drop (pos data) (buf data)))),
             de32 (drop 4 (take 8 (drop (pos data) (buf data)))))"
    using Cons.prems by (simp add: unpack_LL_def)
  have "pos (data\<lparr>pos := pos data + 8\<rparr>) + 8 * length idx \<le> length (buf (data\<lparr>pos := pos data + 8\<rparr>))"
    using Cons.prems by simp
  from Cons.IH[OF this] show ?case
    by (simp add: r u Let_def)
qed

lemma read_pointer_table_total:
  assumes "pos data + 8 * count \<le> length (buf data)" and "1 \<le> count"
  shows "\<exists>d' ms'. read_pointer_table data count sp = Inr (d', ms')"
proof -
  have r: "bio_read 8 data = (take 8 (drop (pos data) (buf data)), data\<lparr>pos := pos data + 8\<rparr>)"
    using assms by (simp add: bio_read_def Let_def)
  have u: "unpack_LL (take 8 (drop (pos data) (buf data)))
      = Inr (de32 (take 4 (take 8 (drop (pos data) (buf data)))),
             de32 (drop 4 (take 8 (drop (pos data) (buf data)))))"
    using assms by (simp add: unpack_LL_def)
  have "pos (data\<lparr>pos := pos data + 8\<rparr>) + 8 * length [1..<count]
      \<le> length (buf (data\<lparr>pos := pos data + 8\<rparr>))"
    using assms by simp
  from read_pointers_total[OF this] obtain d' ms' where
    "read_pointers [1..<count] (data\<lparr>pos := pos data + 8\<rparr>)
       [Message (de32 (take 4 (take 8 (drop (pos data) (buf data)))))
                (de32 (drop 4 (take 8 (drop (pos data) (buf data)))))] = Inr (d', ms')"
    by blast
  then show ?thesis
    by (simp add: read_pointer_table_def r u)
qed

lemma message_eqI:
  fixes m :: message
  assumes "label_pointer m = a" and "pointer m = b" and "length_m m = c" and "label m = l"
    and "decoded m = t"
  shows "m = \<lparr>label_pointer = a, pointer = b, length_m = c, label = l, decoded = t\<rparr>"
  using assms by (cases m) simp

lemma read_pointer_table_messages:
  assumes "pos data + 8 * count \<le> length (buf data)" and "1 \<le> count"
  shows "read_pointer_table data count spos =
    Inr (data\<lparr>pos := pos data + 8 * count\<rparr>,
         map (\<lambda>i. \<lparr>label_pointer = u32_at (buf data) (pos data + 8 * i),
                   pointer = u32_at (buf data) (pos data + 8 * i + 4),
                   length_m = Some (if i + 1 < count
                     then int (u32_at (buf data) (pos data + 8 * (i + 1) + 4))
                          - int (u32_at (buf data) (pos data + 8 * i + 4))
                     else int spos - int (u32_at (buf data) (pos data + 8 * i + 4))),
                   label = [], decoded = []\<rparr>) [0..<count])"
proof -
  from read_pointer_table_total[OF assms] obtain d' ms where
    r: "read_pointer_table data count spos = Inr (d', ms)" by blast
  note s = read_pointer_table_spec[OF r assms(2)]
  have len: "length ms = count" using s by simp
  have d': "d' = data\<lparr>pos := pos data + 8 * count\<rparr>" using s by simp
  have ne: "ms \<noteq> []" using len assms(2) by auto
  have lastix: "last ms = ms ! (count - 1)" using len ne by (simp add: last_conv_nth)
  have "ms ! i = \<lparr>label_pointer = u32_at (buf data) (pos data + 8 * i),
                   pointer = u32_at (buf data) (pos data + 8 * i + 4),
                   length_m = Some (if i + 1 < count
                     then int (u32_at (buf data) (pos data + 8 * (i + 1) + 4))
                          - int (u32_at (buf data) (pos data + 8 * i + 4))
                     else int spos - int (u32_at (buf data) (pos data + 8 * i + 4))),
                   label = [], decoded = []\<rparr>" if i: "i < count" for i
  proof (rule message_eqI)
    show "label_pointer (ms ! i) = u32_at (buf data) (pos data + 8 * i)" using s i by simp
    show "pointer (ms ! i) = u32_at (buf data) (pos data + 8 * i + 4)" using s i by simp
    show "label (ms ! i) = []" using s i by simp
    show "decoded (ms ! i) = []" using s i by simp
    show "length_m (ms ! i) = Some (if i + 1 < count
                     then int (u32_at (buf data) (pos data + 8 * (i + 1) + 4))
                          - int (u32_at (buf data) (pos data + 8 * i + 4))
                     else int spos - int (u32_at (buf data) (pos data + 8 * i + 4)))"
    proof (cases "i + 1 < count")
      case True
      have p: "pointer (ms ! (i + 1)) = u32_at (buf data) (pos data + 8 * (i + 1) + 4)"
        "pointer (ms ! i) = u32_at (buf data) (pos data + 8 * i + 4)"
        using s True by simp_all
      have "length_m (ms ! i) = Some (int (pointer (ms ! (i + 1))) - int (pointer (ms ! i)))"
        using s True by blast
      then show ?thesis using True by (simp only: p if_True)
    next
      case False
      then have e: "i = count - 1" using i by simp
      have p: "pointer (ms ! i) = u32_at (buf data) (pos data + 8 * i + 4)"
        using s i by simp
      have "length_m (last ms) = Some (int spos - int (pointer (last ms)))" using s by simp
      then have "length_m (ms ! i) = Some (int spos - int (pointer (ms ! i)))"
        using lastix e by simp
      then show ?thesis using False by (simp only: p if_False)
    qed
  qed
  then have "ms = map (\<lambda>i. \<lparr>label_pointer = u32_at (buf data) (pos data + 8 * i),
                   pointer = u32_at (buf data) (pos data + 8 * i + 4),
                   length_m = Some (if i + 1 < count
                     then int (u32_at (buf data) (pos data + 8 * (i + 1) + 4))
                          - int (u32_at (buf data) (pos data + 8 * i + 4))
                     else int spos - int (u32_at (buf data) (pos data + 8 * i + 4))),
                   label = [], decoded = []\<rparr>) [0..<count]"
    using len by (intro nth_equalityI) simp_all
  then show ?thesis using r d' by (simp only:)
qed

section \<open>The entry checks and the header (decode)\<close>

lemma decode_magic:
  "take 4 data = magic \<Longrightarrow> decode_1LMG L lp data sp c = decode_container L lp data sp"
  by (simp add: decode_1LMG_def)

lemma decode_no_magic:
  "take 4 data \<noteq> magic \<Longrightarrow> take 4 (drop 5 data) \<noteq> magic \<Longrightarrow>
   decode_1LMG L lp data sp c
     = failed (ascii ''File isn't 1LMG format: '' @ lp @ ascii ''\<newline>'') (- 1)"
  by (simp add: decode_1LMG_def)

lemma decode_compressed_disabled:
  "take 4 data \<noteq> magic \<Longrightarrow> take 4 (drop 5 data) = magic \<Longrightarrow> \<not> c > 1 \<Longrightarrow>
   decode_1LMG L lp data sp c
     = failed (ascii ''1LMG File is compressed: '' @ lp @ ascii ''\<newline>'') (- 1)"
  by (simp add: decode_1LMG_def)

lemma decode_decompress_failed:
  "take 4 data \<noteq> magic \<Longrightarrow> take 4 (drop 5 data) = magic \<Longrightarrow> c > 1 \<Longrightarrow>
   lz11_decompress L data = None \<Longrightarrow>
   decode_1LMG L lp data sp c
     = failed (ascii ''lz11 decompression failed: '' @ lp @ ascii ''\<newline>'') (- 3)"
  by (simp add: decode_1LMG_def)

lemma decode_decompressed:
  "take 4 data \<noteq> magic \<Longrightarrow> take 4 (drop 5 data) = magic \<Longrightarrow> c > 1 \<Longrightarrow>
   lz11_decompress L data = Some d \<Longrightarrow>
   decode_1LMG L lp data sp c = decode_container L lp d sp"
  by (simp add: decode_1LMG_def)

lemma unpack_L_at:
  "k + 4 \<le> length bs \<Longrightarrow> unpack_L (take 4 (drop k bs)) = Inr (u32_at bs k)"
  by (simp add: unpack_L_def u32_at_def)

lemma bio_read_4:
  "pos b + 4 \<le> length (buf b) \<Longrightarrow>
   bio_read 4 b = (take 4 (drop (pos b) (buf b)), b\<lparr>pos := pos b + 4\<rparr>)"
  by (simp add: bio_read_def Let_def)

lemma read_header_ok:
  assumes "16 \<le> length bytes" and "0x34 + u32_at bytes 8 + u32_at bytes 12 + 4 \<le> length bytes"
  shows "read_header bytes =
    Inr ((u32_at bytes 4, u32_at bytes 8, u32_at bytes 12,
          u32_at bytes (0x34 + u32_at bytes 8 + u32_at bytes 12)),
         \<lparr>buf = bytes, pos = 0x34 + u32_at bytes 8 + u32_at bytes 12 + 4\<rparr>)"
proof -
  have a: "(4::nat) + 4 \<le> length bytes" "(8::nat) + 4 \<le> length bytes"
    "(12::nat) + 4 \<le> length bytes" using assms(1) by simp_all
  show ?thesis
    using assms(2) a
    by (simp add: read_header_def BytesIO_def bio_seek_def bio_read_4 unpack_L_at
        del: add_numeral_left)
qed

lemma decode_container_empty:
  assumes "16 \<le> length bytes" and "0x34 + u32_at bytes 8 + u32_at bytes 12 + 4 \<le> length bytes"
    and "u32_at bytes (0x34 + u32_at bytes 8 + u32_at bytes 12) = 0"
  shows "decode_container L lp bytes sp
    = failed (ascii ''1LMG is empty: '' @ lp @ ascii ''\<newline>'') (- 2)"
  using assms(3) by (simp add: decode_container_def read_header_ok[OF assms(1,2)])

lemma magic_eval: "magic = [0x31, 0x4C, 0x4D, 0x47]"
  by (simp add: magic_def)

lemma le32_eval: "le32 0 = [0,0,0,0]" "le32 4 = [4,0,0,0]" "le32 8 = [8,0,0,0]"
  by (simp_all add: le32_def)

lemma empty_container_eval:
  "length empty_container = 64" "take 4 empty_container = magic"
  "u32_at empty_container 8 = 0" "u32_at empty_container 12 = 4" "u32_at empty_container 56 = 0"
  by (simp_all add: empty_container_def magic_eval le32_eval u32_at_def de32_def)

text \<open>
  Claim C6. A container whose header and message count can be read (it holds the 16
  header bytes read and the 4 bytes of the count at the start of the pointer table) and
  whose message count is zero is rejected: the error stream gets the "is empty" message,
  the function returns \<open>-2\<close>, and neither the output file nor the standard output is
  written. The result differs from the one of a file without the magic, which is \<open>-1\<close>.
\<close>

theorem empty_container_rejected:
  assumes "16 \<le> length bytes" and "0x34 + u32_at bytes 8 + u32_at bytes 12 + 4 \<le> length bytes"
    and "u32_at bytes (0x34 + u32_at bytes 8 + u32_at bytes 12) = 0"
  shows "decode_container L lp bytes sp
           = failed (ascii ''1LMG is empty: '' @ lp @ ascii ''\<newline>'') (- 2)
    \<and> (take 4 bytes = magic \<longrightarrow> decode_1LMG L lp bytes sp c = decode_container L lp bytes sp)
    \<and> saved (decode_container L lp bytes sp) = None
    \<and> stdout (decode_container L lp bytes sp) = None
    \<and> ret (decode_container L lp bytes sp) = Inr (- 2)
    \<and> (take 4 d \<noteq> magic \<and> take 4 (drop 5 d) \<noteq> magic \<longrightarrow>
         ret (decode_1LMG L lp' d sp' c') = Inr (- 1)
         \<and> ret (decode_1LMG L lp' d sp' c') \<noteq> ret (decode_container L lp bytes sp))"
  by (simp add: decode_container_empty[OF assms] decode_magic decode_no_magic failed_def)

theorem empty_container_rejected_witness:
  "decode_1LMG sample_lib (ascii ''in'') empty_container (Some (ascii ''out'')) 2
     = failed (ascii ''1LMG is empty: in\<newline>'') (- 2)
   \<and> saved (decode_1LMG sample_lib (ascii ''in'') empty_container (Some (ascii ''out'')) 2) = None
   \<and> ret (decode_1LMG sample_lib (ascii ''in'') no_magic (Some (ascii ''out'')) 2) = Inr (- 1)"
proof -
  have nm: "take 4 no_magic \<noteq> magic \<and> take 4 (drop 5 no_magic) \<noteq> magic"
    by (simp add: no_magic_def magic_def)
  show ?thesis
    using empty_container_rejected[where bytes = empty_container and d = no_magic
        and L = sample_lib and lp = "ascii ''in''" and sp = "Some (ascii ''out'')" and c = 2
        and lp' = "ascii ''in''" and sp' = "Some (ascii ''out'')" and c' = 2] nm
    by (simp add: empty_container_eval ascii_def failed_def)
qed

lemma shifted_magic_eval:
  "take 4 shifted_magic \<noteq> magic" "take 4 (drop 5 shifted_magic) = magic"
  "length shifted_magic = 13"
  by (simp_all add: shifted_magic_def magic_eval)

lemma no_magic_eval:
  "take 4 no_magic \<noteq> magic" "take 4 (drop 5 no_magic) \<noteq> magic"
  by (simp_all add: no_magic_def magic_eval)

text \<open>
  Claim C4. \<open>decode_1LMG\<close> looks for the magic at offset 0 and, when it is there, goes on
  with the bytes as they are. When it is missing there and found at offset 5, and
  decompression is enabled (\<open>compress > 1\<close>), \<open>lz11_decompress\<close> is called: when that
  raises, the function reports "lz11 decompression failed" with the path and returns
  \<open>-3\<close>; when it returns, the function goes on with the decompressed bytes. When the
  magic is at neither offset, the function reports a format error and returns \<open>-1\<close>,
  whatever \<open>lz11_decompress\<close> would do: it is not called.
\<close>

theorem magic_check:
  "(take 4 data = magic \<longrightarrow> decode_1LMG L lp data sp c = decode_container L lp data sp)
   \<and> (take 4 data \<noteq> magic \<and> take 4 (drop 5 data) = magic \<and> c > 1 \<longrightarrow>
        (lz11_decompress L data = None \<longrightarrow>
           decode_1LMG L lp data sp c
             = failed (ascii ''lz11 decompression failed: '' @ lp @ ascii ''\<newline>'') (- 3))
        \<and> (\<forall>d. lz11_decompress L data = Some d \<longrightarrow>
           decode_1LMG L lp data sp c = decode_container L lp d sp))
   \<and> (take 4 data \<noteq> magic \<and> take 4 (drop 5 data) \<noteq> magic \<longrightarrow>
        (\<forall>f. decode_1LMG (L\<lparr>lz11_decompress := f\<rparr>) lp data sp c
           = failed (ascii ''File isn't 1LMG format: '' @ lp @ ascii ''\<newline>'') (- 1)))"
  by (simp add: decode_magic decode_no_magic decode_decompress_failed decode_decompressed)

theorem magic_check_witness:
  "decode_1LMG (sample_lib\<lparr>lz11_decompress := (\<lambda>d. None)\<rparr>) (ascii ''in'') shifted_magic None 2
     = failed (ascii ''lz11 decompression failed: in\<newline>'') (- 3)
   \<and> decode_1LMG sample_lib (ascii ''in'') ([0, 0, 0, 0, 0] @ empty_container) None 2
     = decode_container sample_lib (ascii ''in'') empty_container None
   \<and> decode_1LMG sample_lib (ascii ''in'') no_magic None 2
     = failed (ascii ''File isn't 1LMG format: in\<newline>'') (- 1)
   \<and> decode_1LMG sample_lib (ascii ''in'') empty_container None 2
     = decode_container sample_lib (ascii ''in'') empty_container None"
proof -
  have a: "take 4 ([0, 0, 0, 0, 0] @ empty_container) \<noteq> magic"
    "take 4 (drop 5 ([0, 0, 0, 0, 0] @ empty_container)) = magic"
    "lz11_decompress sample_lib ([0, 0, 0, 0, 0] @ empty_container) = Some empty_container"
    by (simp_all add: empty_container_eval magic_eval sample_lib_def)
  have b: "lz11_decompress (sample_lib\<lparr>lz11_decompress := (\<lambda>d. None)\<rparr>) shifted_magic = None"
    by simp
  have c: "sample_lib\<lparr>lz11_decompress := lz11_decompress sample_lib\<rparr> = sample_lib"
    by simp
  have 1: "decode_1LMG (sample_lib\<lparr>lz11_decompress := (\<lambda>d. None)\<rparr>) (ascii ''in'') shifted_magic None 2
     = failed (ascii ''lz11 decompression failed: in\<newline>'') (- 3)"
    using magic_check[where data = shifted_magic and c = 2 and lp = "ascii ''in''" and sp = None
        and L = "sample_lib\<lparr>lz11_decompress := (\<lambda>d. None)\<rparr>"]
    by (simp add: b shifted_magic_eval ascii_def)
  have 2: "decode_1LMG sample_lib (ascii ''in'') ([0, 0, 0, 0, 0] @ empty_container) None 2
     = decode_container sample_lib (ascii ''in'') empty_container None"
    using magic_check[where data = "[0, 0, 0, 0, 0] @ empty_container" and c = 2
        and lp = "ascii ''in''" and sp = None and L = sample_lib] a
    by simp
  have 3: "decode_1LMG sample_lib (ascii ''in'') no_magic None 2
     = failed (ascii ''File isn't 1LMG format: in\<newline>'') (- 1)"
  proof -
    from magic_check[where data = no_magic and c = 2 and lp = "ascii ''in''" and sp = None
        and L = sample_lib]
    have "\<forall>f. decode_1LMG (sample_lib\<lparr>lz11_decompress := f\<rparr>) (ascii ''in'') no_magic None 2
           = failed (ascii ''File isn't 1LMG format: '' @ ascii ''in'' @ ascii ''\<newline>'') (- 1)"
      by (simp add: no_magic_eval)
    then have "decode_1LMG (sample_lib\<lparr>lz11_decompress := lz11_decompress sample_lib\<rparr>)
        (ascii ''in'') no_magic None 2
           = failed (ascii ''File isn't 1LMG format: '' @ ascii ''in'' @ ascii ''\<newline>'') (- 1)"
      by blast
    then show ?thesis by (simp add: ascii_def)
  qed
  have 4: "decode_1LMG sample_lib (ascii ''in'') empty_container None 2
     = decode_container sample_lib (ascii ''in'') empty_container None"
    using magic_check[where data = empty_container and c = 2 and lp = "ascii ''in''" and sp = None
        and L = sample_lib]
    by (simp add: empty_container_eval)
  show ?thesis
    using 1 2 3 4 by (simp only:)
qed

text \<open>
  Claim C3 does not hold as stated: a file with the magic at offset 5, decoded with
  compression disabled, and a file without the magic give the same return value \<open>-1\<close>.
\<close>

theorem return_codes_counterexample:
  "ret (decode_1LMG sample_lib (ascii ''in'') shifted_magic None 1)
     = ret (decode_1LMG sample_lib (ascii ''in'') no_magic None 1)
   \<and> ret (decode_1LMG sample_lib (ascii ''in'') shifted_magic None 1) = Inr (- 1)
   \<and> ret (decode_1LMG sample_lib (ascii ''in'') no_magic None 1) = Inr (- 1)
   \<and> take 4 (drop 5 shifted_magic) = magic
   \<and> take 4 no_magic \<noteq> magic \<and> take 4 (drop 5 no_magic) \<noteq> magic"
  by (simp add: decode_1LMG_def shifted_magic_eval no_magic_eval failed_def)

text \<open>
  Claim C3, amended. The return value tells three classes of failure apart: \<open>-1\<close> for a
  file that is not in the format and, alike, for a compressed file when decompression is
  disabled; \<open>-3\<close> for a failed decompression; \<open>-2\<close> for a container without messages. The
  two failures that return \<open>-1\<close> differ in the message written to the error stream only.
\<close>

theorem return_codes:
  "(take 4 data \<noteq> magic \<and> take 4 (drop 5 data) \<noteq> magic \<longrightarrow>
      ret (decode_1LMG L lp data sp c) = Inr (- 1)
      \<and> stderr (decode_1LMG L lp data sp c)
          = [ascii ''File isn't 1LMG format: '' @ lp @ ascii ''\<newline>''])
   \<and> (take 4 data \<noteq> magic \<and> take 4 (drop 5 data) = magic \<and> \<not> c > 1 \<longrightarrow>
      ret (decode_1LMG L lp data sp c) = Inr (- 1)
      \<and> stderr (decode_1LMG L lp data sp c)
          = [ascii ''1LMG File is compressed: '' @ lp @ ascii ''\<newline>''])
   \<and> (take 4 data \<noteq> magic \<and> take 4 (drop 5 data) = magic \<and> c > 1
       \<and> lz11_decompress L data = None \<longrightarrow>
      ret (decode_1LMG L lp data sp c) = Inr (- 3)
      \<and> stderr (decode_1LMG L lp data sp c)
          = [ascii ''lz11 decompression failed: '' @ lp @ ascii ''\<newline>''])
   \<and> (16 \<le> length bytes \<and> 0x34 + u32_at bytes 8 + u32_at bytes 12 + 4 \<le> length bytes
       \<and> u32_at bytes (0x34 + u32_at bytes 8 + u32_at bytes 12) = 0 \<longrightarrow>
      ret (decode_container L lp bytes sp) = Inr (- 2)
      \<and> stderr (decode_container L lp bytes sp)
          = [ascii ''1LMG is empty: '' @ lp @ ascii ''\<newline>''])
   \<and> ascii ''File isn't 1LMG format: '' @ lp @ ascii ''\<newline>''
       \<noteq> ascii ''1LMG File is compressed: '' @ lp @ ascii ''\<newline>''"
  by (simp add: decode_no_magic decode_compressed_disabled decode_decompress_failed
      decode_container_empty failed_def ascii_def)

theorem return_codes_witness:
  "ret (decode_1LMG sample_lib (ascii ''in'') no_magic None 1) = Inr (- 1)
   \<and> ret (decode_1LMG sample_lib (ascii ''in'') shifted_magic None 1) = Inr (- 1)
   \<and> stderr (decode_1LMG sample_lib (ascii ''in'') no_magic None 1)
       \<noteq> stderr (decode_1LMG sample_lib (ascii ''in'') shifted_magic None 1)
   \<and> ret (decode_1LMG (sample_lib\<lparr>lz11_decompress := (\<lambda>d. None)\<rparr>) (ascii ''in'') shifted_magic None 2)
       = Inr (- 3)
   \<and> ret (decode_container sample_lib (ascii ''in'') empty_container None) = Inr (- 2)"
  using return_codes[where data = no_magic and c = 1 and lp = "ascii ''in''" and sp = None
        and L = sample_lib and bytes = empty_container]
    return_codes[where data = shifted_magic and c = 1 and lp = "ascii ''in''" and sp = None
        and L = sample_lib and bytes = empty_container]
    return_codes[where data = shifted_magic and c = 2 and lp = "ascii ''in''" and sp = None
        and L = "sample_lib\<lparr>lz11_decompress := (\<lambda>d. None)\<rparr>" and bytes = empty_container]
  by (simp add: shifted_magic_eval no_magic_eval empty_container_eval ascii_def)

section \<open>The run of decode on a readable container\<close>

lemma write_messages_ok:
  "list_all (\<lambda>m. encodes (message_str L m)) ms \<Longrightarrow>
   write_messages encodes L ms w = (w @ concat (map (message_str L) ms), None)"
  by (induction ms arbitrary: w) simp_all

lemma write_messages_exn:
  "snd (write_messages encodes L ms w) = None
   \<or> snd (write_messages encodes L ms w) = Some UnicodeEncodeError"
  by (induction ms arbitrary: w) simp_all

lemma write_output_saved:
  "list_all (\<lambda>m. list_all encodable (message_str L m)) ms \<Longrightarrow>
   write_output L (Some path) sl ms
     = \<lparr>stderr = [], stdout = None, saved = Some (concat (map (message_str L) ms)),
        ret = Inr (if sl = 4 then 0 else 1)\<rparr>"
  by (simp add: write_output_def write_messages_ok)

lemma write_output_printed:
  "list_all (\<lambda>m. stdout_encodes L (message_str L m)) ms \<Longrightarrow>
   write_output L None sl ms
     = \<lparr>stderr = [], stdout = Some (concat (map (message_str L) ms) @ ascii ''\<newline>''),
        saved = None, ret = Inr (if sl = 4 then 0 else 1)\<rparr>"
  by (simp add: write_output_def write_messages_ok)

lemma write_output_ret:
  "ret (write_output L sp sl ms) = Inr (if sl = 4 then 0 else 1)
   \<or> ret (write_output L sp sl ms) = Inl UnicodeEncodeError"
proof (cases sp)
  case None
  obtain w x where r: "write_messages (stdout_encodes L) L ms [] = (w, x)"
    by (cases "write_messages (stdout_encodes L) L ms []")
  have "x = None \<or> x = Some UnicodeEncodeError"
    using write_messages_exn[of "stdout_encodes L" L ms "[]"] r by simp
  then show ?thesis using None r by (auto simp: write_output_def)
next
  case (Some path)
  obtain w x where r: "write_messages (list_all encodable) L ms [] = (w, x)"
    by (cases "write_messages (list_all encodable) L ms []")
  have "x = None \<or> x = Some UnicodeEncodeError"
    using write_messages_exn[of "list_all encodable" L ms "[]"] r by simp
  then show ?thesis using Some r by (auto simp: write_output_def)
qed

lemma decode_messages_length:
  "decode_messages L p ms d = Some (ms', d') \<Longrightarrow> length ms' = length ms"
  by (induction ms arbitrary: d ms' d') (auto split: option.splits)

lemma spec_table_messages:
  assumes "16 \<le> length bytes" and "1 \<le> spec_message_count bytes"
    and "spec_labels_position bytes \<le> length bytes"
  shows "read_header bytes =
      Inr ((u32_at bytes 4, u32_at bytes 8, u32_at bytes 12, spec_message_count bytes),
           \<lparr>buf = bytes, pos = spec_table_position bytes + 4\<rparr>)"
    and "read_pointer_table \<lparr>buf = bytes, pos = spec_table_position bytes + 4\<rparr>
           (spec_message_count bytes) (0x34 + u32_at bytes 8)
      = Inr (\<lparr>buf = bytes, pos = spec_labels_position bytes\<rparr>, spec_messages bytes)"
proof -
  have l: "0x34 + u32_at bytes 8 + u32_at bytes 12 + 4 \<le> length bytes"
    using assms(3) by (simp add: spec_labels_position_def spec_table_position_def)
  show "read_header bytes =
      Inr ((u32_at bytes 4, u32_at bytes 8, u32_at bytes 12, spec_message_count bytes),
           \<lparr>buf = bytes, pos = spec_table_position bytes + 4\<rparr>)"
    using read_header_ok[OF assms(1) l]
    by (simp only: spec_message_count_def spec_table_position_def)
  have b: "pos \<lparr>buf = bytes, pos = spec_table_position bytes + 4\<rparr> + 8 * spec_message_count bytes
      \<le> length (buf \<lparr>buf = bytes, pos = spec_table_position bytes + 4\<rparr>)"
    using assms(3) by (simp add: spec_labels_position_def)
  have m: "map (\<lambda>i. \<lparr>label_pointer = u32_at bytes (spec_table_position bytes + 4 + 8 * i),
                   pointer = u32_at bytes (spec_table_position bytes + 4 + 8 * i + 4),
                   length_m = Some (if i + 1 < spec_message_count bytes
                     then int (u32_at bytes (spec_table_position bytes + 4 + 8 * (i + 1) + 4))
                          - int (u32_at bytes (spec_table_position bytes + 4 + 8 * i + 4))
                     else int (0x34 + u32_at bytes 8)
                          - int (u32_at bytes (spec_table_position bytes + 4 + 8 * i + 4))),
                   label = [], decoded = []\<rparr>) [0..<spec_message_count bytes]
      = spec_messages bytes"
    unfolding spec_messages_def spec_message_def spec_data_offset_def spec_string_position_def
    by (rule refl)
  have p: "\<lparr>buf = bytes, pos = spec_table_position bytes + 4\<rparr>
      \<lparr>pos := pos \<lparr>buf = bytes, pos = spec_table_position bytes + 4\<rparr> + 8 * spec_message_count bytes\<rparr>
      = \<lparr>buf = bytes, pos = spec_labels_position bytes\<rparr>"
    by (simp add: spec_labels_position_def)
  show "read_pointer_table \<lparr>buf = bytes, pos = spec_table_position bytes + 4\<rparr>
           (spec_message_count bytes) (0x34 + u32_at bytes 8)
      = Inr (\<lparr>buf = bytes, pos = spec_labels_position bytes\<rparr>, spec_messages bytes)"
    using read_pointer_table_messages[OF b assms(2), where spos = "0x34 + u32_at bytes 8"]
    unfolding p bytesio.simps m by (simp only: spec_labels_position_def)
qed

lemma decode_container_table:
  assumes "16 \<le> length bytes" and "1 \<le> spec_message_count bytes"
    and "spec_labels_position bytes \<le> length bytes"
  shows "decode_container L lp bytes sp =
    (case decode_messages L (spec_labels_position bytes) (spec_messages bytes)
            \<lparr>buf = bytes, pos = spec_labels_position bytes\<rparr> of
       None \<Rightarrow> raised LibError
     | Some (ms', d) \<Rightarrow>
         write_output L sp (u32_at bytes 12) (strip_trailing_pad L (u32_at bytes 12) ms'))"
proof -
  note t = spec_table_messages[OF assms]
  have n: "spec_message_count bytes \<noteq> 0" using assms(2) by simp
  have p: "0x34 + u32_at bytes 8 + u32_at bytes 12 + (4 + spec_message_count bytes * 8)
      = spec_labels_position bytes"
    by (simp add: spec_labels_position_def spec_table_position_def)
  show ?thesis
    by (simp only: decode_container_def t(1) sum.case prod.case Let_def n if_False t(2) p)
qed

text \<open>
  Claim C1. Take a container whose header can be read, whose message count is at least 1
  and whose pointer table lies within the file. The messages that decode hands to
  \<open>get_label\<close> and \<open>decode\<close> (lines 89 to 92) are the ones of the table, as the
  specification describes them, and what decode does is determined by them. There are
  as many as the count says, the data offset of message \<open>i\<close> is the second value of
  pair \<open>i\<close>, every message but the last has as its length the next message's data
  offset minus its own, and the last one the start of the string section (\<open>0x34\<close> plus the
  data length) minus its own data offset.
\<close>

theorem pointer_table_lengths:
  assumes "16 \<le> length bytes" and "1 \<le> spec_message_count bytes"
    and "spec_labels_position bytes \<le> length bytes"
    and "ms = spec_messages bytes"
  shows "decode_container L lp bytes sp =
      (case decode_messages L (spec_labels_position bytes) ms
              \<lparr>buf = bytes, pos = spec_labels_position bytes\<rparr> of
         None \<Rightarrow> raised LibError
       | Some (ms', d) \<Rightarrow>
           write_output L sp (u32_at bytes 12) (strip_trailing_pad L (u32_at bytes 12) ms'))
    \<and> (take 4 bytes = magic \<longrightarrow> decode_1LMG L lp bytes sp c = decode_container L lp bytes sp)
    \<and> length ms = spec_message_count bytes
    \<and> (\<forall>i. i < spec_message_count bytes \<longrightarrow>
          pointer (ms ! i) = u32_at bytes (spec_table_position bytes + 4 + 8 * i + 4))
    \<and> (\<forall>i. i + 1 < spec_message_count bytes \<longrightarrow>
          length_m (ms ! i) = Some (int (pointer (ms ! (i + 1))) - int (pointer (ms ! i))))
    \<and> length_m (last ms) = Some (int (0x34 + u32_at bytes 8) - int (pointer (last ms)))"
proof -
  have len: "length ms = spec_message_count bytes"
    by (simp add: assms(4) spec_messages_def)
  have nth: "ms ! i = spec_message bytes i" if "i < spec_message_count bytes" for i
    using that by (simp add: assms(4) spec_messages_def)
  have ne: "ms \<noteq> []" using len assms(2) by auto
  have l: "last ms = spec_message bytes (spec_message_count bytes - 1)"
    using ne len nth[of "spec_message_count bytes - 1"] assms(2) by (simp add: last_conv_nth)
  have 1: "decode_container L lp bytes sp =
      (case decode_messages L (spec_labels_position bytes) ms
              \<lparr>buf = bytes, pos = spec_labels_position bytes\<rparr> of
         None \<Rightarrow> raised LibError
       | Some (ms', d) \<Rightarrow>
           write_output L sp (u32_at bytes 12) (strip_trailing_pad L (u32_at bytes 12) ms'))"
    unfolding assms(4) by (rule decode_container_table[OF assms(1,2,3)])
  have 4: "\<forall>i. i < spec_message_count bytes \<longrightarrow>
          pointer (ms ! i) = u32_at bytes (spec_table_position bytes + 4 + 8 * i + 4)"
    using nth by (simp add: spec_message_def spec_data_offset_def)
  have 5: "\<forall>i. i + 1 < spec_message_count bytes \<longrightarrow>
          length_m (ms ! i) = Some (int (pointer (ms ! (i + 1))) - int (pointer (ms ! i)))"
    using nth by (simp add: spec_message_def)
  have 6: "length_m (last ms) = Some (int (0x34 + u32_at bytes 8) - int (pointer (last ms)))"
    unfolding l using assms(2) by (simp add: spec_message_def spec_string_position_def)
  show ?thesis using 1 len 4 5 6 by (simp add: decode_magic)
qed

lemma three_container_eval:
  "length three_container = 114" "take 4 three_container = magic"
  "u32_at three_container 8 = 22" "u32_at three_container 12 = 4"
  "u32_at three_container 78 = 3"
  "u32_at three_container 82 = 2" "u32_at three_container 86 = 0x34"
  "u32_at three_container 90 = 4" "u32_at three_container 94 = 0x3E"
  "u32_at three_container 98 = 6" "u32_at three_container 102 = 0x43"
  by (simp_all add: three_container_def table3_def magic_eval le32_def u32_at_def de32_def)

lemma three_positions:
  "spec_table_position three_container = 78" "spec_message_count three_container = 3"
  "spec_labels_position three_container = 106"
  by (simp_all add: spec_table_position_def spec_message_count_def spec_labels_position_def
      three_container_eval)

lemma three_container_messages:
  "spec_messages three_container =
     [(Message 2 0x34)\<lparr>length_m := Some 10\<rparr>, (Message 4 0x3E)\<lparr>length_m := Some 5\<rparr>,
      (Message 6 0x43)\<lparr>length_m := Some 7\<rparr>]"
  by (simp add: spec_messages_def spec_message_def spec_data_offset_def spec_string_position_def
      three_positions three_container_eval Message_def upt_rec)

lemma three_container_decoded:
  "decode_messages sample_lib 106
     [(Message 2 0x34)\<lparr>length_m := Some 10\<rparr>, (Message 4 0x3E)\<lparr>length_m := Some 5\<rparr>,
      (Message 6 0x43)\<lparr>length_m := Some 7\<rparr>] \<lparr>buf = three_container, pos = 106\<rparr>
   = Some ([(Message 2 0x34)\<lparr>length_m := Some 10, label := ascii ''a'',
               decoded := ascii ''0123456789''\<rparr>,
            (Message 4 0x3E)\<lparr>length_m := Some 5, label := ascii ''b'', decoded := ascii ''abcde''\<rparr>,
            (Message 6 0x43)\<lparr>length_m := Some 7, label := ascii ''c'',
               decoded := ascii ''ABCDEFG''\<rparr>],
           \<lparr>buf = three_container, pos = 106\<rparr>)"
proof -
  have "drop 108 three_container = [0x61, 0, 0x62, 0, 0x63, 0]"
    "drop 110 three_container = [0x62, 0, 0x63, 0]"
    "drop 112 three_container = [0x63, 0]"
    "take 10 (drop 52 three_container) = map of_char ''0123456789''"
    "take 5 (drop 62 three_container) = map of_char ''abcde''"
    "take 7 (drop 67 three_container) = map of_char ''ABCDEFG''"
    by (simp_all add: three_container_def table3_def magic_eval le32_def)
  then show ?thesis
    by (simp add: sample_lib_def Message_def ascii_def)
qed

text \<open>
  The example of the specification: the data offsets \<open>0x34\<close>, \<open>0x34+10\<close>, \<open>0x34+10+5\<close> and
  the string section at \<open>0x34+10+5+7\<close> give the lengths 10, 5 and 7, and the sample library
  decodes 10, 5 and 7 bytes.
\<close>

theorem pointer_table_lengths_witness:
  "map pointer (spec_messages three_container) = [0x34, 0x34 + 10, 0x34 + 10 + 5]
   \<and> 0x34 + u32_at three_container 8 = 0x34 + 10 + 5 + 7
   \<and> map length_m (spec_messages three_container) = [Some 10, Some 5, Some 7]
   \<and> length_m (last (spec_messages three_container))
       = Some (int (0x34 + u32_at three_container 8)
               - int (pointer (last (spec_messages three_container))))
   \<and> decode_1LMG sample_lib (ascii ''in'') three_container (Some (ascii ''out'')) 2
       = \<lparr>stderr = [], stdout = None,
          saved = Some (ascii ''===\<newline>a\<newline>===\<newline>0123456789\<newline>''
                        @ ascii ''===\<newline>b\<newline>===\<newline>abcde\<newline>''
                        @ ascii ''===\<newline>c\<newline>===\<newline>ABCDEFG\<newline>''),
          ret = Inr 0\<rparr>"
proof -
  have h: "16 \<le> length three_container" "1 \<le> spec_message_count three_container"
    "spec_labels_position three_container \<le> length three_container"
    by (simp_all add: three_positions three_container_eval)
  note t = pointer_table_lengths[OF h refl, where L = sample_lib and lp = "ascii ''in''"
      and sp = "Some (ascii ''out'')" and c = 2]
  have s: "strip_trailing_pad sample_lib 4
      [(Message 2 0x34)\<lparr>length_m := Some 10, label := ascii ''a'', decoded := ascii ''0123456789''\<rparr>,
       (Message 4 0x3E)\<lparr>length_m := Some 5, label := ascii ''b'', decoded := ascii ''abcde''\<rparr>,
       (Message 6 0x43)\<lparr>length_m := Some 7, label := ascii ''c'', decoded := ascii ''ABCDEFG''\<rparr>]
    = [(Message 2 0x34)\<lparr>length_m := Some 10, label := ascii ''a'', decoded := ascii ''0123456789''\<rparr>,
       (Message 4 0x3E)\<lparr>length_m := Some 5, label := ascii ''b'', decoded := ascii ''abcde''\<rparr>,
       (Message 6 0x43)\<lparr>length_m := Some 7, label := ascii ''c'', decoded := ascii ''ABCDEFG''\<rparr>]"
    by (simp add: strip_trailing_pad_def sample_lib_def Message_def ascii_def)
  have w: "write_output sample_lib (Some (ascii ''out'')) 4
      [(Message 2 0x34)\<lparr>length_m := Some 10, label := ascii ''a'', decoded := ascii ''0123456789''\<rparr>,
       (Message 4 0x3E)\<lparr>length_m := Some 5, label := ascii ''b'', decoded := ascii ''abcde''\<rparr>,
       (Message 6 0x43)\<lparr>length_m := Some 7, label := ascii ''c'', decoded := ascii ''ABCDEFG''\<rparr>]
    = \<lparr>stderr = [], stdout = None,
          saved = Some (ascii ''===\<newline>a\<newline>===\<newline>0123456789\<newline>''
                        @ ascii ''===\<newline>b\<newline>===\<newline>abcde\<newline>''
                        @ ascii ''===\<newline>c\<newline>===\<newline>ABCDEFG\<newline>''),
          ret = Inr 0\<rparr>"
    by (simp add: write_output_def sample_lib_def Message_def ascii_def encodable_def)
  have d: "decode_1LMG sample_lib (ascii ''in'') three_container (Some (ascii ''out'')) 2
       = \<lparr>stderr = [], stdout = None,
          saved = Some (ascii ''===\<newline>a\<newline>===\<newline>0123456789\<newline>''
                        @ ascii ''===\<newline>b\<newline>===\<newline>abcde\<newline>''
                        @ ascii ''===\<newline>c\<newline>===\<newline>ABCDEFG\<newline>''),
          ret = Inr 0\<rparr>"
    using t[THEN conjunct1] t[THEN conjunct2, THEN conjunct1]
    by (simp only: three_container_eval three_positions three_container_messages
        three_container_decoded option.case prod.case s w simp_thms)
  have l: "length_m (last (spec_messages three_container))
       = Some (int (0x34 + u32_at three_container 8)
               - int (pointer (last (spec_messages three_container))))"
    using t[THEN conjunct2, THEN conjunct2, THEN conjunct2, THEN conjunct2, THEN conjunct2] .
  have m: "map pointer (spec_messages three_container) = [0x34, 0x34 + 10, 0x34 + 10 + 5]"
    "0x34 + u32_at three_container 8 = 0x34 + 10 + 5 + 7"
    "map length_m (spec_messages three_container) = [Some 10, Some 5, Some 7]"
    by (simp_all add: three_container_messages three_container_eval Message_def)
  show ?thesis using m l d by (intro conjI)
qed

section \<open>The trailing pad (decode)\<close>

lemma ends_with_iff:
  "(drop (length s - (1 + length t)) s = t @ [c]) = (\<exists>pre. s = pre @ t @ [c])"
proof
  assume a: "drop (length s - (1 + length t)) s = t @ [c]"
  have "s = take (length s - (1 + length t)) s @ t @ [c]"
    using a by (metis append_take_drop_id)
  then show "\<exists>pre. s = pre @ t @ [c]" by blast
next
  assume "\<exists>pre. s = pre @ t @ [c]"
  then obtain pre where "s = pre @ t @ [c]" by blast
  then show "drop (length s - (1 + length t)) s = t @ [c]" by simp
qed

lemma ascii_zero: "ascii ''0'' = [48]"
  by (simp add: ascii_def)

lemma strip_trailing_pad_spec:
  assumes "messages \<noteq> []"
  shows "(string_length = 4 \<and> decoded (last messages) = pre @ commands_fffe L @ ascii ''0'' \<longrightarrow>
           strip_trailing_pad L string_length messages
             = butlast messages @ [(last messages)\<lparr>decoded := pre @ commands_fffe L\<rparr>])
    \<and> (string_length \<noteq> 4 \<or> \<not> (\<exists>p. decoded (last messages) = p @ commands_fffe L @ ascii ''0'') \<longrightarrow>
           strip_trailing_pad L string_length messages = messages)"
proof -
  have upd: "messages[length messages - Suc 0 := m] = butlast messages @ [m]" for m
    using assms by (induction messages) (auto split: nat.splits)
  have "strip_trailing_pad L string_length messages
          = butlast messages @ [(last messages)\<lparr>decoded := pre @ commands_fffe L\<rparr>]"
    if "string_length = 4" and d: "decoded (last messages) = pre @ commands_fffe L @ ascii ''0''"
  proof -
    have "butlast (decoded (last messages)) = pre @ commands_fffe L"
      using d by (simp add: ascii_zero butlast_append)
    moreover have "drop (length (decoded (last messages)) - (1 + length (commands_fffe L)))
                 (decoded (last messages)) = commands_fffe L @ ascii ''0''"
      unfolding ascii_zero ends_with_iff using d ascii_zero by auto
    ultimately show ?thesis
      using that(1) by (simp add: strip_trailing_pad_def upd)
  qed
  moreover have "strip_trailing_pad L string_length messages = messages"
    if "string_length \<noteq> 4 \<or> \<not> (\<exists>p. decoded (last messages) = p @ commands_fffe L @ ascii ''0'')"
  proof -
    have "string_length \<noteq> 4 \<or>
      drop (length (decoded (last messages)) - (1 + length (commands_fffe L)))
        (decoded (last messages)) \<noteq> commands_fffe L @ ascii ''0''"
      using that unfolding ascii_zero ends_with_iff by blast
    then show ?thesis unfolding strip_trailing_pad_def by auto
  qed
  ultimately show ?thesis by blast
qed

text \<open>
  Claim C5. Take a container whose header can be read, whose message count is at least 1
  and whose pointer table lies within the file, and let \<open>ms\<close> be its messages as
  \<open>get_label\<close> and \<open>decode\<close> return them. When the string length of the header is 4 and
  the text of the last message ends with the stop marker followed by the character \<open>0\<close>,
  decode writes the messages with exactly that last character removed and nothing else
  changed; when the string length is not 4, or the text of the last message does not end
  so, it writes the messages as they are. If UTF-8 can encode what is written, the file
  at the save path holds the rendered messages, one after the other. With the stop marker
  written \<open>[STOP]\<close>, the text \<open>hello[STOP]0\<close> becomes \<open>hello[STOP]\<close>.
\<close>

theorem trailing_pad_stripped:
  assumes "16 \<le> length bytes" and "1 \<le> spec_message_count bytes"
    and "spec_labels_position bytes \<le> length bytes"
    and "decode_messages L (spec_labels_position bytes) (spec_messages bytes)
           \<lparr>buf = bytes, pos = spec_labels_position bytes\<rparr> = Some (ms, d)"
    and "stripped = butlast ms @ [(last ms)\<lparr>decoded := pre @ commands_fffe L\<rparr>]"
  shows "(u32_at bytes 12 = 4 \<and> decoded (last ms) = pre @ commands_fffe L @ ascii ''0'' \<longrightarrow>
           decode_container L lp bytes sp = write_output L sp 4 stripped
           \<and> (list_all (\<lambda>m. list_all encodable (message_str L m)) stripped \<longrightarrow>
                decode_container L lp bytes (Some path)
                  = \<lparr>stderr = [], stdout = None,
                     saved = Some (concat (map (message_str L) stripped)), ret = Inr 0\<rparr>))
    \<and> (u32_at bytes 12 \<noteq> 4 \<or> \<not> (\<exists>p. decoded (last ms) = p @ commands_fffe L @ ascii ''0'') \<longrightarrow>
           decode_container L lp bytes sp = write_output L sp (u32_at bytes 12) ms
           \<and> (list_all (\<lambda>m. list_all encodable (message_str L m)) ms \<longrightarrow>
                decode_container L lp bytes (Some path)
                  = \<lparr>stderr = [], stdout = None,
                     saved = Some (concat (map (message_str L) ms)),
                     ret = Inr (if u32_at bytes 12 = 4 then 0 else 1)\<rparr>))
    \<and> (take 4 bytes = magic \<longrightarrow> decode_1LMG L lp bytes sp c = decode_container L lp bytes sp)"
proof -
  have run: "decode_container L lp bytes s
      = write_output L s (u32_at bytes 12) (strip_trailing_pad L (u32_at bytes 12) ms)" for s
    by (simp only: decode_container_table[OF assms(1,2,3)] assms(4) option.case prod.case)
  have "length ms = spec_message_count bytes"
    using decode_messages_length[OF assms(4)] by (simp add: spec_messages_def)
  then have ne: "ms \<noteq> []" using assms(2) by auto
  note s = strip_trailing_pad_spec[OF ne, where L = L and string_length = "u32_at bytes 12"
      and pre = pre]
  have a: "decode_container L lp bytes sp = write_output L sp 4 stripped
           \<and> (list_all (\<lambda>m. list_all encodable (message_str L m)) stripped \<longrightarrow>
                decode_container L lp bytes (Some path)
                  = \<lparr>stderr = [], stdout = None,
                     saved = Some (concat (map (message_str L) stripped)), ret = Inr 0\<rparr>)"
    if c: "u32_at bytes 12 = 4 \<and> decoded (last ms) = pre @ commands_fffe L @ ascii ''0''"
  proof -
    have e: "strip_trailing_pad L (u32_at bytes 12) ms = stripped"
      using s[THEN conjunct1] c assms(5) by blast
    have r: "decode_container L lp bytes s = write_output L s 4 stripped" for s
      using run[of s] e c by simp
    show ?thesis using r[of sp] r[of "Some path"] by (simp add: write_output_saved)
  qed
  have b: "decode_container L lp bytes sp = write_output L sp (u32_at bytes 12) ms
           \<and> (list_all (\<lambda>m. list_all encodable (message_str L m)) ms \<longrightarrow>
                decode_container L lp bytes (Some path)
                  = \<lparr>stderr = [], stdout = None,
                     saved = Some (concat (map (message_str L) ms)),
                     ret = Inr (if u32_at bytes 12 = 4 then 0 else 1)\<rparr>)"
    if c: "u32_at bytes 12 \<noteq> 4 \<or> \<not> (\<exists>p. decoded (last ms) = p @ commands_fffe L @ ascii ''0'')"
  proof -
    have e: "strip_trailing_pad L (u32_at bytes 12) ms = ms"
      using s[THEN conjunct2] c by blast
    have r: "decode_container L lp bytes s = write_output L s (u32_at bytes 12) ms" for s
      using run[of s] e by simp
    show ?thesis using r[of sp] r[of "Some path"] by (simp add: write_output_saved)
  qed
  show ?thesis using a b by (simp add: decode_magic)
qed

lemma stop_container_eval:
  "length (stop_container ''hello[STOP]0'' [0x2A, 0, 0, 0]) = 84"
  "take 4 (stop_container ''hello[STOP]0'' [0x2A, 0, 0, 0]) = magic"
  "u32_at (stop_container ''hello[STOP]0'' [0x2A, 0, 0, 0]) 12 = 4"
  "spec_message_count (stop_container ''hello[STOP]0'' [0x2A, 0, 0, 0]) = 1"
  "spec_labels_position (stop_container ''hello[STOP]0'' [0x2A, 0, 0, 0]) = 80"
  "spec_messages (stop_container ''hello[STOP]0'' [0x2A, 0, 0, 0])
     = [(Message 2 0x34)\<lparr>length_m := Some 12\<rparr>]"
  by (simp_all add: stop_container_def magic_eval le32_def u32_at_def de32_def
      spec_table_position_def spec_message_count_def spec_labels_position_def
      spec_messages_def spec_message_def spec_data_offset_def spec_string_position_def
      Message_def)

lemma stop_container_decoded:
  "decode_messages sample_lib 80 [(Message 2 0x34)\<lparr>length_m := Some 12\<rparr>]
       \<lparr>buf = stop_container ''hello[STOP]0'' [0x2A, 0, 0, 0], pos = 80\<rparr>
     = Some ([(Message 2 0x34)\<lparr>length_m := Some 12, label := ascii ''a'',
                decoded := ascii ''hello[STOP]0''\<rparr>],
             \<lparr>buf = stop_container ''hello[STOP]0'' [0x2A, 0, 0, 0], pos = 80\<rparr>)"
proof -
  have "drop 82 (stop_container ''hello[STOP]0'' [0x2A, 0, 0, 0]) = [0x61, 0]"
    "take 12 (drop 52 (stop_container ''hello[STOP]0'' [0x2A, 0, 0, 0]))
       = map of_char ''hello[STOP]0''"
    by (simp_all add: stop_container_def magic_eval le32_def)
  then show ?thesis
    by (simp add: sample_lib_def Message_def ascii_def)
qed

lemma strings_container_eval:
  "length (stop_container ''hello[STOP]0'' [0x2A, 0, 0, 0, 0x2A, 0, 0, 0]) = 88"
  "take 4 (stop_container ''hello[STOP]0'' [0x2A, 0, 0, 0, 0x2A, 0, 0, 0]) = magic"
  "u32_at (stop_container ''hello[STOP]0'' [0x2A, 0, 0, 0, 0x2A, 0, 0, 0]) 12 = 8"
  "spec_message_count (stop_container ''hello[STOP]0'' [0x2A, 0, 0, 0, 0x2A, 0, 0, 0]) = 1"
  "spec_labels_position (stop_container ''hello[STOP]0'' [0x2A, 0, 0, 0, 0x2A, 0, 0, 0]) = 84"
  "spec_messages (stop_container ''hello[STOP]0'' [0x2A, 0, 0, 0, 0x2A, 0, 0, 0])
     = [(Message 2 0x34)\<lparr>length_m := Some 12\<rparr>]"
  by (simp_all add: stop_container_def magic_eval le32_def u32_at_def de32_def
      spec_table_position_def spec_message_count_def spec_labels_position_def
      spec_messages_def spec_message_def spec_data_offset_def spec_string_position_def
      Message_def)

lemma strings_container_decoded:
  "decode_messages sample_lib 84 [(Message 2 0x34)\<lparr>length_m := Some 12\<rparr>]
       \<lparr>buf = stop_container ''hello[STOP]0'' [0x2A, 0, 0, 0, 0x2A, 0, 0, 0], pos = 84\<rparr>
     = Some ([(Message 2 0x34)\<lparr>length_m := Some 12, label := ascii ''a'',
                decoded := ascii ''hello[STOP]0''\<rparr>],
             \<lparr>buf = stop_container ''hello[STOP]0'' [0x2A, 0, 0, 0, 0x2A, 0, 0, 0], pos = 84\<rparr>)"
proof -
  have "drop 86 (stop_container ''hello[STOP]0'' [0x2A, 0, 0, 0, 0x2A, 0, 0, 0]) = [0x61, 0]"
    "take 12 (drop 52 (stop_container ''hello[STOP]0'' [0x2A, 0, 0, 0, 0x2A, 0, 0, 0]))
       = map of_char ''hello[STOP]0''"
    by (simp_all add: stop_container_def magic_eval le32_def)
  then show ?thesis
    by (simp add: sample_lib_def Message_def ascii_def)
qed

lemma plain_container_eval:
  "length (stop_container ''hello[STOP]'' [0x2A, 0, 0, 0]) = 83"
  "take 4 (stop_container ''hello[STOP]'' [0x2A, 0, 0, 0]) = magic"
  "u32_at (stop_container ''hello[STOP]'' [0x2A, 0, 0, 0]) 12 = 4"
  "spec_message_count (stop_container ''hello[STOP]'' [0x2A, 0, 0, 0]) = 1"
  "spec_labels_position (stop_container ''hello[STOP]'' [0x2A, 0, 0, 0]) = 79"
  "spec_messages (stop_container ''hello[STOP]'' [0x2A, 0, 0, 0])
     = [(Message 2 0x34)\<lparr>length_m := Some 11\<rparr>]"
  by (simp_all add: stop_container_def magic_eval le32_def u32_at_def de32_def
      spec_table_position_def spec_message_count_def spec_labels_position_def
      spec_messages_def spec_message_def spec_data_offset_def spec_string_position_def
      Message_def)

lemma plain_container_decoded:
  "decode_messages sample_lib 79 [(Message 2 0x34)\<lparr>length_m := Some 11\<rparr>]
       \<lparr>buf = stop_container ''hello[STOP]'' [0x2A, 0, 0, 0], pos = 79\<rparr>
     = Some ([(Message 2 0x34)\<lparr>length_m := Some 11, label := ascii ''a'',
                decoded := ascii ''hello[STOP]''\<rparr>],
             \<lparr>buf = stop_container ''hello[STOP]'' [0x2A, 0, 0, 0], pos = 79\<rparr>)"
proof -
  have "drop 81 (stop_container ''hello[STOP]'' [0x2A, 0, 0, 0]) = [0x61, 0]"
    "take 11 (drop 52 (stop_container ''hello[STOP]'' [0x2A, 0, 0, 0]))
       = map of_char ''hello[STOP]''"
    by (simp_all add: stop_container_def magic_eval le32_def)
  then show ?thesis
    by (simp add: sample_lib_def Message_def ascii_def)
qed

text \<open>
  Three containers with one message: the text \<open>hello[STOP]0\<close> and the string length 4,
  the same text and the string length 8, and the text \<open>hello[STOP]\<close> and the string
  length 4. Only the first one loses its last character.
\<close>

theorem trailing_pad_stripped_witness:
  "decode_1LMG sample_lib (ascii ''in'') (stop_container ''hello[STOP]0'' [0x2A, 0, 0, 0])
       (Some (ascii ''out'')) 2
     = \<lparr>stderr = [], stdout = None,
        saved = Some (ascii ''===\<newline>a\<newline>===\<newline>hello[STOP]\<newline>''), ret = Inr 0\<rparr>
   \<and> decode_1LMG sample_lib (ascii ''in'')
       (stop_container ''hello[STOP]0'' [0x2A, 0, 0, 0, 0x2A, 0, 0, 0]) (Some (ascii ''out'')) 2
     = \<lparr>stderr = [], stdout = None,
        saved = Some (ascii ''===\<newline>a\<newline>===\<newline>hello[STOP]0\<newline>''), ret = Inr 1\<rparr>
   \<and> decode_1LMG sample_lib (ascii ''in'') (stop_container ''hello[STOP]'' [0x2A, 0, 0, 0])
       (Some (ascii ''out'')) 2
     = \<lparr>stderr = [], stdout = None,
        saved = Some (ascii ''===\<newline>a\<newline>===\<newline>hello[STOP]\<newline>''), ret = Inr 0\<rparr>"
proof -
  have 1: "decode_1LMG sample_lib (ascii ''in'') (stop_container ''hello[STOP]0'' [0x2A, 0, 0, 0])
       (Some (ascii ''out'')) 2
     = \<lparr>stderr = [], stdout = None,
        saved = Some (ascii ''===\<newline>a\<newline>===\<newline>hello[STOP]\<newline>''), ret = Inr 0\<rparr>"
  proof -
    have h: "16 \<le> length (stop_container ''hello[STOP]0'' [0x2A, 0, 0, 0])"
      "1 \<le> spec_message_count (stop_container ''hello[STOP]0'' [0x2A, 0, 0, 0])"
      "spec_labels_position (stop_container ''hello[STOP]0'' [0x2A, 0, 0, 0])
         \<le> length (stop_container ''hello[STOP]0'' [0x2A, 0, 0, 0])"
      "decode_messages sample_lib
         (spec_labels_position (stop_container ''hello[STOP]0'' [0x2A, 0, 0, 0]))
         (spec_messages (stop_container ''hello[STOP]0'' [0x2A, 0, 0, 0]))
         \<lparr>buf = stop_container ''hello[STOP]0'' [0x2A, 0, 0, 0],
          pos = spec_labels_position (stop_container ''hello[STOP]0'' [0x2A, 0, 0, 0])\<rparr>
       = Some ([(Message 2 0x34)\<lparr>length_m := Some 12, label := ascii ''a'',
                decoded := ascii ''hello[STOP]0''\<rparr>],
             \<lparr>buf = stop_container ''hello[STOP]0'' [0x2A, 0, 0, 0], pos = 80\<rparr>)"
      by (simp_all only: stop_container_eval stop_container_decoded)
    note t = trailing_pad_stripped[OF h refl, where pre = "ascii ''hello''"
        and lp = "ascii ''in''" and sp = "Some (ascii ''out'')" and path = "ascii ''out''"
        and c = 2]
    have "decode_container sample_lib (ascii ''in'') (stop_container ''hello[STOP]0'' [0x2A, 0, 0, 0])
       (Some (ascii ''out''))
     = \<lparr>stderr = [], stdout = None,
        saved = Some (ascii ''===\<newline>a\<newline>===\<newline>hello[STOP]\<newline>''), ret = Inr 0\<rparr>"
      using t[THEN conjunct1]
      by (simp add: stop_container_eval sample_lib_def Message_def write_output_def ascii_def
          encodable_def)
    then show ?thesis
      using t[THEN conjunct2, THEN conjunct2] by (simp add: stop_container_eval)
  qed
  have 2: "decode_1LMG sample_lib (ascii ''in'')
       (stop_container ''hello[STOP]0'' [0x2A, 0, 0, 0, 0x2A, 0, 0, 0]) (Some (ascii ''out'')) 2
     = \<lparr>stderr = [], stdout = None,
        saved = Some (ascii ''===\<newline>a\<newline>===\<newline>hello[STOP]0\<newline>''), ret = Inr 1\<rparr>"
  proof -
    have h: "16 \<le> length (stop_container ''hello[STOP]0'' [0x2A, 0, 0, 0, 0x2A, 0, 0, 0])"
      "1 \<le> spec_message_count (stop_container ''hello[STOP]0'' [0x2A, 0, 0, 0, 0x2A, 0, 0, 0])"
      "spec_labels_position (stop_container ''hello[STOP]0'' [0x2A, 0, 0, 0, 0x2A, 0, 0, 0])
         \<le> length (stop_container ''hello[STOP]0'' [0x2A, 0, 0, 0, 0x2A, 0, 0, 0])"
      "decode_messages sample_lib
         (spec_labels_position (stop_container ''hello[STOP]0'' [0x2A, 0, 0, 0, 0x2A, 0, 0, 0]))
         (spec_messages (stop_container ''hello[STOP]0'' [0x2A, 0, 0, 0, 0x2A, 0, 0, 0]))
         \<lparr>buf = stop_container ''hello[STOP]0'' [0x2A, 0, 0, 0, 0x2A, 0, 0, 0],
          pos = spec_labels_position (stop_container ''hello[STOP]0'' [0x2A, 0, 0, 0, 0x2A, 0, 0, 0])\<rparr>
       = Some ([(Message 2 0x34)\<lparr>length_m := Some 12, label := ascii ''a'',
                decoded := ascii ''hello[STOP]0''\<rparr>],
             \<lparr>buf = stop_container ''hello[STOP]0'' [0x2A, 0, 0, 0, 0x2A, 0, 0, 0], pos = 84\<rparr>)"
      by (simp_all only: strings_container_eval strings_container_decoded)
    note t = trailing_pad_stripped[OF h refl, where pre = "ascii ''hello''"
        and lp = "ascii ''in''" and sp = "Some (ascii ''out'')" and path = "ascii ''out''"
        and c = 2]
    have "decode_container sample_lib (ascii ''in'')
       (stop_container ''hello[STOP]0'' [0x2A, 0, 0, 0, 0x2A, 0, 0, 0]) (Some (ascii ''out''))
     = \<lparr>stderr = [], stdout = None,
        saved = Some (ascii ''===\<newline>a\<newline>===\<newline>hello[STOP]0\<newline>''), ret = Inr 1\<rparr>"
      using t[THEN conjunct2, THEN conjunct1]
      by (simp add: strings_container_eval sample_lib_def Message_def write_output_def ascii_def
          encodable_def)
    then show ?thesis
      using t[THEN conjunct2, THEN conjunct2] by (simp add: strings_container_eval)
  qed
  have 3: "decode_1LMG sample_lib (ascii ''in'') (stop_container ''hello[STOP]'' [0x2A, 0, 0, 0])
       (Some (ascii ''out'')) 2
     = \<lparr>stderr = [], stdout = None,
        saved = Some (ascii ''===\<newline>a\<newline>===\<newline>hello[STOP]\<newline>''), ret = Inr 0\<rparr>"
  proof -
    have h: "16 \<le> length (stop_container ''hello[STOP]'' [0x2A, 0, 0, 0])"
      "1 \<le> spec_message_count (stop_container ''hello[STOP]'' [0x2A, 0, 0, 0])"
      "spec_labels_position (stop_container ''hello[STOP]'' [0x2A, 0, 0, 0])
         \<le> length (stop_container ''hello[STOP]'' [0x2A, 0, 0, 0])"
      "decode_messages sample_lib
         (spec_labels_position (stop_container ''hello[STOP]'' [0x2A, 0, 0, 0]))
         (spec_messages (stop_container ''hello[STOP]'' [0x2A, 0, 0, 0]))
         \<lparr>buf = stop_container ''hello[STOP]'' [0x2A, 0, 0, 0],
          pos = spec_labels_position (stop_container ''hello[STOP]'' [0x2A, 0, 0, 0])\<rparr>
       = Some ([(Message 2 0x34)\<lparr>length_m := Some 11, label := ascii ''a'',
                decoded := ascii ''hello[STOP]''\<rparr>],
             \<lparr>buf = stop_container ''hello[STOP]'' [0x2A, 0, 0, 0], pos = 79\<rparr>)"
      by (simp_all only: plain_container_eval plain_container_decoded)
    note t = trailing_pad_stripped[OF h refl, where pre = "ascii ''hello''"
        and lp = "ascii ''in''" and sp = "Some (ascii ''out'')" and path = "ascii ''out''"
        and c = 2]
    have n: "\<not> (\<exists>p. ascii ''hello[STOP]'' = p @ ascii ''[STOP]'' @ ascii ''0'')"
    proof
      assume "\<exists>p. ascii ''hello[STOP]'' = p @ ascii ''[STOP]'' @ ascii ''0''"
      then obtain p where "ascii ''hello[STOP]'' = p @ ascii ''[STOP]'' @ ascii ''0''" by blast
      then have "last (ascii ''hello[STOP]'') = last (p @ ascii ''[STOP]'' @ ascii ''0'')" by simp
      then show False by (simp add: ascii_def)
    qed
    have "decode_container sample_lib (ascii ''in'') (stop_container ''hello[STOP]'' [0x2A, 0, 0, 0])
       (Some (ascii ''out''))
     = \<lparr>stderr = [], stdout = None,
        saved = Some (ascii ''===\<newline>a\<newline>===\<newline>hello[STOP]\<newline>''), ret = Inr 0\<rparr>"
      using t[THEN conjunct2, THEN conjunct1] n
      by (simp add: plain_container_eval sample_lib_def Message_def write_output_def ascii_def
          encodable_def)
    then show ?thesis
      using t[THEN conjunct2, THEN conjunct2] by (simp add: plain_container_eval)
  qed
  show ?thesis using 1 2 3 by (intro conjI)
qed

section \<open>The text parser (encode)\<close>

lemma length_cut_lines: "length (cut_lines xs) = length xs"
  by (induction xs rule: cut_lines.induct) simp_all

lemma text_messages_even:
  "even (length xs) \<Longrightarrow>
   \<exists>ms. text_messages xs = Inr ms \<and> length ms = length xs div 2
     \<and> (\<forall>i<length ms. label (ms ! i) = hd (split_py (xs ! (2 * i)) (ascii '' Position''))
           \<and> decoded (ms ! i) = xs ! (2 * i + 1) \<and> pointer (ms ! i) = 0)"
proof (induction xs rule: text_messages.induct)
  case 1
  then show ?case by simp
next
  case (2 x)
  then show ?case by simp
next
  case (3 x y rest)
  then have "even (length rest)" by simp
  with 3 obtain ms where ms: "text_messages rest = Inr ms" "length ms = length rest div 2"
    "\<forall>i<length ms. label (ms ! i) = hd (split_py (rest ! (2 * i)) (ascii '' Position''))
           \<and> decoded (ms ! i) = rest ! (2 * i + 1) \<and> pointer (ms ! i) = 0"
    by blast
  define m where "m = (Message 0 0)\<lparr>label := hd (split_py x (ascii '' Position'')), decoded := y,
                              pointer := 0\<rparr>"
  have r: "text_messages (x # y # rest) = Inr (m # ms)" by (simp add: ms(1) m_def)
  have "label ((m # ms) ! i) = hd (split_py ((x # y # rest) ! (2 * i)) (ascii '' Position''))
           \<and> decoded ((m # ms) ! i) = (x # y # rest) ! (2 * i + 1) \<and> pointer ((m # ms) ! i) = 0"
    if "i < length (m # ms)" for i
  proof (cases i)
    case 0
    then show ?thesis by (simp add: m_def)
  next
    case (Suc j)
    then have "j < length ms" using that by simp
    then show ?thesis using ms(3) Suc by simp
  qed
  then show ?case using r ms(2) by simp
qed

text \<open>
  Claim C7. The text is split at the separator lines and the first piece is dropped.
  When the number of segments left is odd, \<open>encode_1LMG\<close> reports the mismatch, returns
  \<open>-1\<close> and writes no output file. When it is even, the segments are taken two by two,
  a label and a text, in order: message \<open>i\<close> has the label read from segment \<open>2i\<close> (cut
  before the position note) and the text of segment \<open>2i+1\<close>, and the function goes on to
  build and save the container of these messages.
\<close>

theorem segment_parity:
  "(odd (length (drop 1 (split_py text (ascii ''===\<newline>'')))) \<longrightarrow>
      encode_1LMG L lp text sp c
        = failed (ascii ''Mismatching number of labels and messages: '' @ lp @ ascii ''\<newline>'') (- 1)
      \<and> saved (encode_1LMG L lp text sp c) = None)
   \<and> (even (length (drop 1 (split_py text (ascii ''===\<newline>'')))) \<longrightarrow>
      (\<exists>ms. text_messages (cut_lines (drop 1 (split_py text (ascii ''===\<newline>'')))) = Inr ms
         \<and> 2 * length ms = length (drop 1 (split_py text (ascii ''===\<newline>'')))
         \<and> (\<forall>i<length ms.
               label (ms ! i) = hd (split_py
                  (cut_lines (drop 1 (split_py text (ascii ''===\<newline>''))) ! (2 * i))
                  (ascii '' Position''))
             \<and> decoded (ms ! i)
                 = cut_lines (drop 1 (split_py text (ascii ''===\<newline>''))) ! (2 * i + 1))
         \<and> encode_1LMG L lp text sp c = save_1LMG L lp ms sp c))"
proof -
  define segs where "segs = drop 1 (split_py text (ascii ''===\<newline>''))"
  have enc: "encode_1LMG L lp text sp c =
     (if length segs mod 2 \<noteq> 0
      then failed (ascii ''Mismatching number of labels and messages: '' @ lp
                      @ ascii ''\<newline>'') (- 1)
      else (case text_messages (cut_lines segs) of Inl x \<Rightarrow> raised x
            | Inr messages \<Rightarrow> save_1LMG L lp messages sp c))"
    unfolding encode_1LMG_def Let_def segs_def ..
  have odd: "encode_1LMG L lp text sp c
        = failed (ascii ''Mismatching number of labels and messages: '' @ lp @ ascii ''\<newline>'') (- 1)
      \<and> saved (encode_1LMG L lp text sp c) = None" if "odd (length segs)"
    using that by (simp add: enc failed_def odd_iff_mod_2_eq_one)
  have even: "\<exists>ms. text_messages (cut_lines segs) = Inr ms
         \<and> 2 * length ms = length segs
         \<and> (\<forall>i<length ms.
               label (ms ! i) = hd (split_py (cut_lines segs ! (2 * i)) (ascii '' Position''))
             \<and> decoded (ms ! i) = cut_lines segs ! (2 * i + 1))
         \<and> encode_1LMG L lp text sp c = save_1LMG L lp ms sp c" if e: "even (length segs)"
  proof -
    from e have "even (length (cut_lines segs))" by (simp add: length_cut_lines)
    from text_messages_even[OF this] obtain ms where ms: "text_messages (cut_lines segs) = Inr ms"
      "length ms = length segs div 2"
      "\<forall>i<length ms. label (ms ! i) = hd (split_py (cut_lines segs ! (2 * i)) (ascii '' Position''))
           \<and> decoded (ms ! i) = cut_lines segs ! (2 * i + 1) \<and> pointer (ms ! i) = 0"
      by (auto simp: length_cut_lines)
    have "encode_1LMG L lp text sp c = save_1LMG L lp ms sp c"
      using e ms(1) by (simp add: enc even_iff_mod_2_eq_zero)
    moreover have "2 * length ms = length segs" using ms(2) e by auto
    ultimately show ?thesis using ms by blast
  qed
  show ?thesis using odd even unfolding segs_def by blast
qed

lemma sep_eval: "ascii ''===\<newline>'' = [61, 61, 61, 10]"
  by (simp add: ascii_def)

lemma split_text_odd:
  "split_py text_odd (ascii ''===\<newline>'') = [[], ascii ''label without text\<newline>'']"
  by (simp add: split_py_def text_odd_def ascii_def)

lemma split_text_one:
  "split_py text_one (ascii ''===\<newline>'') = [[], ascii ''a Position 1\<newline>'', ascii ''hi\<newline>'']"
  by (simp add: split_py_def text_one_def ascii_def)

lemma cut_text_one:
  "cut_lines [ascii ''a Position 1\<newline>'', ascii ''hi\<newline>''] = [ascii ''a Position 1'', ascii ''hi\<newline>'']"
  by (simp add: ascii_def rfind_def py_upto_def)

lemma label_text_one:
  "hd (split_py (ascii ''a Position 1'') (ascii '' Position'')) = ascii ''a''"
  by (simp add: split_py_def ascii_def)

section \<open>The container builder (encode)\<close>

lemma bio_seek_end_simps [simp]:
  "buf (bio_seek_end b) = buf b" "pos (bio_seek_end b) = length (buf b)"
  by (simp_all add: bio_seek_end_def)

lemma bio_write_at_end:
  assumes "pos b = length (buf b)"
  shows "buf (bio_write bs b) = buf b @ bs" "pos (bio_write bs b) = length (buf b) + length bs"
  using assms by (simp_all add: bio_write_def)

lemma bio_write_seek_end [simp]:
  "buf (bio_write bs (bio_seek_end b)) = buf b @ bs"
  "pos (bio_write bs (bio_seek_end b)) = length (buf b) + length bs"
  by (simp_all add: bio_write_at_end)

lemma align4_spec:
  "buf (align4 b) = spec_pad4 (buf b)" "pos (align4 b) = length (spec_pad4 (buf b))"
proof -
  have "length (buf b) mod 4 \<noteq> 0 \<Longrightarrow> (4 - length (buf b) mod 4) mod 4 = 4 - length (buf b) mod 4"
    by simp
  then show "buf (align4 b) = spec_pad4 (buf b)" "pos (align4 b) = length (spec_pad4 (buf b))"
    by (auto simp: align4_def spec_pad4_def Let_def)
qed

lemma append_part_at_end:
  assumes "pos h = length (buf h)"
  shows "buf (append_part h part) = buf h @ buf part"
    "pos (append_part h part) = length (buf (append_part h part))"
  using assms by (simp_all add: append_part_def bio_read_all_def bio_seek_def bio_write_at_end Let_def)

lemma str_encode_Inr: "str_encode s = Inr l \<Longrightarrow> l = utf8 s"
  by (simp add: str_encode_def split: if_splits)

lemma pack_LL_Inr: "pack_LL a b = Inr p \<Longrightarrow> p = le32 a @ le32 b"
  by (simp add: pack_LL_def split: if_splits)

lemma encode_messages_layout:
  assumes "encode_messages L ms table labels data = Inr (t', l', d')"
    and "pos table = length (buf table)"
  shows "\<exists>ps. map (message_encode L) ms = map Inr ps
    \<and> buf d' = buf data @ concat ps
    \<and> buf l' = buf labels @ concat (map (\<lambda>m. utf8 (label m) @ [0]) ms)
    \<and> buf t' = buf table @ concat (map (\<lambda>i.
          le32 (length (buf labels) + length (concat (map (\<lambda>m. utf8 (label m) @ [0]) (take i ms))))
          @ le32 (length (buf data) + length (concat (take i ps)) + 0x34)) [0..<length ms])
    \<and> pos t' = length (buf t')"
  using assms
proof (induction ms arbitrary: table labels data)
  case Nil
  then show ?case by simp
next
  case (Cons m ms)
  let ?lab = "\<lambda>m. utf8 (label m) @ [0]"
  from Cons.prems(1) obtain p where p: "pack_LL (length (buf labels)) (length (buf data) + 0x34) = Inr p"
    by (auto simp: Let_def split: sum.splits)
  from Cons.prems(1) p obtain e where e: "message_encode L m = Inr e"
    by (auto simp: Let_def split: sum.splits)
  from Cons.prems(1) p e obtain l where l: "str_encode (label m) = Inr l"
    by (auto simp: Let_def split: sum.splits)
  have rec: "encode_messages L ms (bio_write p table) (bio_write (l @ [0]) (bio_seek_end labels))
      (bio_write e (bio_seek_end data)) = Inr (t', l', d')"
    using Cons.prems(1) p e l by (simp add: Let_def)
  have pv: "p = le32 (length (buf labels)) @ le32 (length (buf data) + 0x34)"
    using p by (rule pack_LL_Inr)
  have lv: "l = utf8 (label m)" using l by (rule str_encode_Inr)
  have t1: "pos (bio_write p table) = length (buf (bio_write p table))"
    "buf (bio_write p table) = buf table @ p"
    using Cons.prems(2) by (simp_all add: bio_write_at_end)
  from Cons.IH[OF rec t1(1)] obtain ps where ps: "map (message_encode L) ms = map Inr ps"
    "buf d' = (buf data @ e) @ concat ps"
    "buf l' = (buf labels @ l @ [0]) @ concat (map ?lab ms)"
    "buf t' = (buf table @ p) @ concat (map (\<lambda>i.
          le32 (length (buf labels @ l @ [0]) + length (concat (map ?lab (take i ms))))
          @ le32 (length (buf data @ e) + length (concat (take i ps)) + 0x34)) [0..<length ms])"
    "pos t' = length (buf t')"
    by (auto simp: t1(2))
  have up: "[0..<length (m # ms)] = 0 # map Suc [0..<length ms]"
    by (simp add: upt_conv_Cons map_Suc_upt del: upt_Suc)
  have tbl: "buf t' = buf table @ concat (map (\<lambda>i.
          le32 (length (buf labels) + length (concat (map ?lab (take i (m # ms)))))
          @ le32 (length (buf data) + length (concat (take i (e # ps))) + 0x34)) [0..<length (m # ms)])"
    unfolding up ps(4) by (simp add: pv lv comp_def add.assoc del: upt_Suc)
  show ?case
    by (rule exI[where x = "e # ps"]) (simp add: e ps(1) ps(2) ps(3) ps(5) lv tbl del: upt_Suc)
qed

lemma length_le32 [simp]: "length (le32 n) = 4"
  by (simp add: le32_def)

lemma length_concat_pairs:
  "length (concat (map (\<lambda>i. le32 (f i) @ le32 (g i)) xs)) = 8 * length xs"
  by (induction xs) simp_all

lemma spec_table_pair_fun:
  "spec_table_pair ms ps = (\<lambda>i. le32 (length (spec_label_buffer (take i ms)))
      @ le32 (length (concat (take i ps)) + 0x34))"
  by (rule ext) (simp add: spec_table_pair_def)

lemma length_spec_pointer_table: "length (spec_pointer_table ms ps) = 4 + length ms * 8"
  by (simp add: spec_pointer_table_def spec_table_pair_fun length_concat_pairs)

lemma pack_L_Inr: "pack_L n = Inr p \<Longrightarrow> p = le32 n \<and> n < 2 ^ 32"
  by (simp add: pack_L_def split: if_splits)

lemma pack_LLL_Inr:
  "pack_LLL a b c = Inr p \<Longrightarrow> p = le32 a @ le32 b @ le32 c \<and> a < 2 ^ 32 \<and> b < 2 ^ 32 \<and> c < 2 ^ 32"
  by (simp add: pack_LLL_def split: if_splits)

lemma build_1LMG_unfold:
  "build_1LMG L ms =
     (case pack_L (length ms) of Inl x \<Rightarrow> Inl (Raise x) | Inr p \<Rightarrow>
     (case encode_messages L ms (bio_write p (BytesIO []))
             (bio_write ([0x2A] @ replicate 1 0) (BytesIO [])) (BytesIO []) of
        Inl x \<Rightarrow> Inl x
      | Inr (table, labels, data) \<Rightarrow>
     (case pack_LLL (pos (bio_seek_end (align4 data)))
             (pos (bio_seek_end (BytesIO ([0x2A] @ replicate 3 0))))
             (pos (bio_seek_end table) + pos (bio_seek_end (align4 labels))) of
        Inl x \<Rightarrow> Inl (Raise x)
      | Inr p \<Rightarrow>
          Inr (fst (bio_read_all (bio_seek 0 (foldl append_part
            (bio_write (replicate 0x20 0)
               (bio_write p (bio_write (replicate 4 0) (bio_seek_end (BytesIO magic)))))
            [bio_seek_end (align4 data), bio_seek_end (BytesIO ([0x2A] @ replicate 3 0)),
             bio_seek_end table, bio_seek_end (align4 labels)])))))))"
  unfolding build_1LMG_def Let_def by (rule refl)

lemma build_1LMG_layout:
  assumes "build_1LMG L ms = Inr out"
  shows "\<exists>ps. map (message_encode L) ms = map Inr ps \<and> out = spec_container ms ps
    \<and> length ms < 2 ^ 32 \<and> length (spec_pad4 (concat ps)) < 2 ^ 32
    \<and> 4 + length ms * 8 + length (spec_pad4 (spec_label_buffer ms)) < 2 ^ 32"
proof -
  define table0 where "table0 = bio_write (le32 (length ms)) (BytesIO [])"
  define labels0 where "labels0 = bio_write ([0x2A] @ replicate 1 0) (BytesIO [])"
  define strings0 where "strings0 = BytesIO ([0x2A] @ replicate 3 0)"
  define header0 where "header0 = bio_write (replicate 4 0) (bio_seek_end (BytesIO magic))"
  note unf = build_1LMG_unfold[of L ms, folded labels0_def strings0_def header0_def]
  from assms obtain p0 where p0: "pack_L (length ms) = Inr p0"
    unfolding unf by (cases "pack_L (length ms)") auto
  then have p0v: "p0 = le32 (length ms)" and n: "length ms < 2 ^ 32"
    using pack_L_Inr by blast+
  from assms obtain t l d where
    loop: "encode_messages L ms table0 labels0 (BytesIO []) = Inr (t, l, d)"
    unfolding unf p0 sum.case p0v table0_def[symmetric]
    by (cases "encode_messages L ms table0 labels0 (BytesIO [])") auto
  have t0: "buf table0 = le32 (length ms)" "pos table0 = length (buf table0)"
    by (simp_all add: table0_def bio_write_def BytesIO_def le32_def)
  note unf1 = unf[unfolded p0 sum.case p0v, folded table0_def]
  have l0: "buf labels0 = [0x2A, 0]"
    by (simp add: labels0_def bio_write_def BytesIO_def)
  from encode_messages_layout[OF loop t0(2)] obtain ps where
    ps: "map (message_encode L) ms = map Inr ps"
    and bd: "buf d = concat ps"
    and bl: "buf l = spec_label_buffer ms"
    and bt0: "buf t = le32 (length ms) @ concat (map (\<lambda>i.
          le32 (length (buf labels0) + length (concat (map (\<lambda>m. utf8 (label m) @ [0]) (take i ms))))
          @ le32 (length (buf (BytesIO [])) + length (concat (take i ps)) + 0x34)) [0..<length ms])"
    and pt: "pos t = length (buf t)"
    by (auto simp: t0(1) l0 BytesIO_def spec_label_buffer_def)
  have bt: "buf t = spec_pointer_table ms ps"
    unfolding bt0 by (simp add: spec_pointer_table_def spec_table_pair_fun spec_label_buffer_def
        l0 BytesIO_def)
  define dl where "dl = length (spec_pad4 (concat ps))"
  define tl where "tl = 4 + length ms * 8 + length (spec_pad4 (spec_label_buffer ms))"
  have h0: "buf header0 = magic @ replicate 4 0" "pos header0 = length (buf header0)"
    by (simp_all add: header0_def BytesIO_def)
  have sizes: "pos (bio_seek_end (align4 d)) = dl"
    "pos (bio_seek_end strings0) = 4"
    "pos (bio_seek_end t) + pos (bio_seek_end (align4 l)) = tl"
    by (simp_all add: align4_spec bd bl bt length_spec_pointer_table dl_def tl_def BytesIO_def
        strings0_def)
  note unf2 = unf1[unfolded loop sum.case prod.case sizes]
  from assms obtain p3 where p3: "pack_LLL dl 4 tl = Inr p3"
    unfolding unf2 by (cases "pack_LLL dl 4 tl") auto
  then have p3v: "p3 = le32 dl @ le32 4 @ le32 tl" and b: "dl < 2 ^ 32" "tl < 2 ^ 32"
    using pack_LLL_Inr by blast+
  define header1 where "header1 = bio_write (replicate 0x20 0) (bio_write p3 header0)"
  have h1: "buf header1 = spec_header dl 4 tl" "pos header1 = length (buf header1)"
    by (simp_all add: header1_def bio_write_at_end h0 p3v spec_header_def)
  have a1: "buf (append_part header1 (bio_seek_end (align4 d))) = spec_header dl 4 tl @ spec_pad4 (concat ps)"
    "pos (append_part header1 (bio_seek_end (align4 d)))
      = length (buf (append_part header1 (bio_seek_end (align4 d))))"
    by (simp_all add: append_part_at_end h1 align4_spec bd)
  have a2: "buf (append_part (append_part header1 (bio_seek_end (align4 d))) (bio_seek_end strings0))
      = spec_header dl 4 tl @ spec_pad4 (concat ps) @ [0x2A, 0, 0, 0]"
    "pos (append_part (append_part header1 (bio_seek_end (align4 d))) (bio_seek_end strings0))
      = length (buf (append_part (append_part header1 (bio_seek_end (align4 d))) (bio_seek_end strings0)))"
    by (simp_all add: append_part_at_end a1 strings0_def BytesIO_def numeral_3_eq_3)
  have a3: "buf (append_part (append_part (append_part header1 (bio_seek_end (align4 d)))
        (bio_seek_end strings0)) (bio_seek_end t))
      = spec_header dl 4 tl @ spec_pad4 (concat ps) @ [0x2A, 0, 0, 0] @ spec_pointer_table ms ps"
    "pos (append_part (append_part (append_part header1 (bio_seek_end (align4 d)))
        (bio_seek_end strings0)) (bio_seek_end t))
      = length (buf (append_part (append_part (append_part header1 (bio_seek_end (align4 d)))
        (bio_seek_end strings0)) (bio_seek_end t)))"
    by (simp_all add: append_part_at_end a2 bt)
  have a4: "buf (append_part (append_part (append_part (append_part header1 (bio_seek_end (align4 d)))
        (bio_seek_end strings0)) (bio_seek_end t)) (bio_seek_end (align4 l)))
      = spec_header dl 4 tl @ spec_pad4 (concat ps) @ [0x2A, 0, 0, 0] @ spec_pointer_table ms ps
        @ spec_pad4 (spec_label_buffer ms)"
    by (simp add: append_part_at_end a3 align4_spec bl)
  have "out = buf (append_part (append_part (append_part (append_part header1 (bio_seek_end (align4 d)))
        (bio_seek_end strings0)) (bio_seek_end t)) (bio_seek_end (align4 l)))"
    using assms unfolding unf2 p3 header1_def
    by (simp add: bio_read_all_def bio_seek_def Let_def)
  then have "out = spec_container ms ps"
    unfolding a4 by (simp add: spec_container_def dl_def tl_def)
  then show ?thesis using ps n b unfolding dl_def tl_def by blast
qed

lemma de32_le32:
  assumes "n < 2 ^ 32"
  shows "de32 (le32 n) = n"
proof -
  define a where "a = n div 256"
  define b where "b = a div 256"
  define c where "c = b div 256"
  have n: "n = n mod 256 + 256 * a" by (simp add: a_def)
  have a: "a = a mod 256 + 256 * b" by (simp add: b_def)
  have b: "b = b mod 256 + 256 * c" by (simp add: c_def)
  have c: "c < 256" using assms unfolding a_def b_def c_def by simp
  have e2: "n div 65536 = b" unfolding a_def b_def by (simp add: div_mult2_eq)
  have e3: "n div 16777216 = c" unfolding a_def b_def c_def by (simp add: div_mult2_eq)
  have "de32 (le32 n) = n mod 256 + 256 * (a mod 256) + 65536 * (b mod 256) + 16777216 * (c mod 256)"
    by (simp add: le32_def de32_def unat_of_nat e2 e3 a_def[symmetric])
  also have "\<dots> = n" using n a b c by simp
  finally show ?thesis .
qed

lemma u32_at_append:
  "n < 2 ^ 32 \<Longrightarrow> length a = k \<Longrightarrow> u32_at (a @ le32 n @ b) k = n"
  by (simp add: u32_at_def de32_le32)

lemma length_magic [simp]: "length magic = 4"
  by (simp add: magic_def)

lemma length_spec_header [simp]: "length (spec_header a b c) = 52"
  by (simp add: spec_header_def)

lemma spec_pad4_aligned: "length (spec_pad4 bs) mod 4 = 0"
proof -
  define r where "r = length bs mod 4"
  have "r < 4" by (simp add: r_def)
  then have "r = 0 \<or> r = 1 \<or> r = 2 \<or> r = 3" by auto
  then have "(r + (4 - r) mod 4) mod 4 = 0" by auto
  moreover have "(length bs + (4 - r) mod 4) mod 4 = (r + (4 - r) mod 4) mod 4"
    unfolding r_def by (simp add: mod_add_left_eq)
  ultimately show ?thesis by (simp add: spec_pad4_def r_def)
qed

lemma nth_block:
  assumes "\<And>j. length (f j) = k" and "i < length xs"
  shows "take k (drop (k * i) (concat (map f xs))) = f (xs ! i)"
  using assms(2)
proof (induction xs arbitrary: i)
  case Nil
  then show ?case by simp
next
  case (Cons x xs)
  show ?case
  proof (cases i)
    case 0
    then show ?thesis by (simp add: assms(1))
  next
    case (Suc j)
    then have "j < length xs" using Cons.prems by simp
    from Cons.IH[OF this] show ?thesis using Suc by (simp add: assms(1))
  qed
qed

lemma spec_pointer_table_pair:
  assumes "i < length ms"
  shows "take 8 (drop (4 + 8 * i) (spec_pointer_table ms ps)) = spec_table_pair ms ps i"
proof -
  have "take 8 (drop (8 * i) (concat (map (spec_table_pair ms ps) [0..<length ms])))
      = spec_table_pair ms ps ([0..<length ms] ! i)"
    by (rule nth_block) (simp_all add: spec_table_pair_def assms)
  then show ?thesis using assms by (simp add: spec_pointer_table_def)
qed

lemma spec_container_fields:
  assumes "dl = length (spec_pad4 (concat ps))"
    and "tbl = 4 + length ms * 8 + length (spec_pad4 (spec_label_buffer ms))"
    and "dl < 2 ^ 32" and "tbl < 2 ^ 32" and "length ms < 2 ^ 32"
  shows "take 4 (spec_container ms ps) = magic"
    "take 4 (drop 4 (spec_container ms ps)) = replicate 4 0"
    "u32_at (spec_container ms ps) 8 = dl"
    "u32_at (spec_container ms ps) 12 = 4"
    "u32_at (spec_container ms ps) 16 = tbl"
    "take 4 (drop (0x34 + dl) (spec_container ms ps)) = [0x2A, 0, 0, 0]"
    "u32_at (spec_container ms ps) (0x34 + dl + 4) = length ms"
    "length (spec_container ms ps) = 0x34 + dl + 4 + tbl"
proof -
  let ?h = "spec_header dl 4 tbl"
  have c: "spec_container ms ps = ?h @ spec_pad4 (concat ps) @ [0x2A, 0, 0, 0]
      @ spec_pointer_table ms ps @ spec_pad4 (spec_label_buffer ms)"
    by (simp add: spec_container_def assms(1,2))
  show "take 4 (spec_container ms ps) = magic"
    by (simp add: c spec_header_def)
  show "take 4 (drop 4 (spec_container ms ps)) = replicate 4 0"
    by (simp add: c spec_header_def)
  have "spec_container ms ps = (magic @ replicate 4 0) @ le32 dl @ (le32 4 @ le32 tbl @ replicate 32 0
      @ spec_pad4 (concat ps) @ [0x2A, 0, 0, 0]
      @ spec_pointer_table ms ps @ spec_pad4 (spec_label_buffer ms))"
    by (simp add: c spec_header_def)
  then show "u32_at (spec_container ms ps) 8 = dl"
    using u32_at_append[OF assms(3), of "magic @ replicate 4 0" 8] by simp
  have "spec_container ms ps = (magic @ replicate 4 0 @ le32 dl) @ le32 4 @ (le32 tbl @ replicate 32 0
      @ spec_pad4 (concat ps) @ [0x2A, 0, 0, 0]
      @ spec_pointer_table ms ps @ spec_pad4 (spec_label_buffer ms))"
    by (simp add: c spec_header_def)
  then show "u32_at (spec_container ms ps) 12 = 4"
    using u32_at_append[of 4 "magic @ replicate 4 0 @ le32 dl" 12] by simp
  have "spec_container ms ps = (magic @ replicate 4 0 @ le32 dl @ le32 4) @ le32 tbl @ (replicate 32 0
      @ spec_pad4 (concat ps) @ [0x2A, 0, 0, 0]
      @ spec_pointer_table ms ps @ spec_pad4 (spec_label_buffer ms))"
    by (simp add: c spec_header_def)
  then show "u32_at (spec_container ms ps) 16 = tbl"
    using u32_at_append[OF assms(4), of "magic @ replicate 4 0 @ le32 dl @ le32 4" 16] by simp
  show "take 4 (drop (0x34 + dl) (spec_container ms ps)) = [0x2A, 0, 0, 0]"
    by (simp add: c assms(1))
  have "spec_container ms ps = (?h @ spec_pad4 (concat ps) @ [0x2A, 0, 0, 0]) @ le32 (length ms)
      @ (concat (map (spec_table_pair ms ps) [0..<length ms]) @ spec_pad4 (spec_label_buffer ms))"
    by (simp add: c spec_pointer_table_def)
  then show "u32_at (spec_container ms ps) (0x34 + dl + 4) = length ms"
    using u32_at_append[OF assms(5), of "?h @ spec_pad4 (concat ps) @ [0x2A, 0, 0, 0]" "0x34 + dl + 4"]
    by (simp add: assms(1))
  show "length (spec_container ms ps) = 0x34 + dl + 4 + tbl"
    by (simp add: c assms(1,2) length_spec_pointer_table)
qed

lemma save_1LMG_plain:
  assumes "build_1LMG L ms = Inr out"
    and "\<not> ((drop (length sp - 3) sp = ascii ''.lz'' \<and> c = 2) \<or> c = 3)"
  shows "save_1LMG L lp ms sp c = \<lparr>stderr = [], stdout = None, saved = Some out, ret = Inr 0\<rparr>"
  using assms by (auto simp: save_1LMG_def)

text \<open>
  Claim C8. When the container of a message sequence is built (every message encodes,
  every \<open>pack\<close> succeeds), the bytes are, in this order: the 52-byte header, the payloads
  of the messages one after the other, zero-padded to a multiple of 4 bytes, the 4-byte
  placeholder string section, the pointer table, and the label buffer (the placeholder
  byte pair, then every label with its terminating zero byte), zero-padded to a multiple
  of 4 bytes. The header's data length field is the length of the padded data, its table
  length field is \<open>4 + message_count * 8\<close> plus the length of the padded label buffer, and
  pair \<open>i\<close> of the pointer table holds the length of the label buffer before the label of
  message \<open>i\<close> is appended and the length of the data buffer before its payload is
  appended plus \<open>0x34\<close>. Without compression, these bytes are what is saved.
\<close>

theorem container_layout:
  assumes "build_1LMG L ms = Inr out"
  shows "map (message_encode L) ms = map Inr (payloads L ms)
    \<and> out = spec_header (length (spec_pad4 (concat (payloads L ms)))) 4
               (4 + length ms * 8 + length (spec_pad4 (spec_label_buffer ms)))
             @ spec_pad4 (concat (payloads L ms)) @ [0x2A, 0, 0, 0]
             @ spec_pointer_table ms (payloads L ms)
             @ spec_pad4 (spec_label_buffer ms)
    \<and> length (spec_header (length (spec_pad4 (concat (payloads L ms)))) 4
               (4 + length ms * 8 + length (spec_pad4 (spec_label_buffer ms)))) = 52
    \<and> length (spec_pad4 (concat (payloads L ms))) mod 4 = 0
    \<and> length (spec_pad4 (spec_label_buffer ms)) mod 4 = 0
    \<and> u32_at out 8 = length (spec_pad4 (concat (payloads L ms)))
    \<and> u32_at out 16 = 4 + length ms * 8 + length (spec_pad4 (spec_label_buffer ms))
    \<and> (\<forall>i<length ms. take 8 (drop (4 + 8 * i) (spec_pointer_table ms (payloads L ms)))
          = le32 (length (spec_label_buffer (take i ms)))
            @ le32 (length (concat (take i (payloads L ms))) + 0x34))
    \<and> (\<not> ((drop (length sp - 3) sp = ascii ''.lz'' \<and> c = 2) \<or> c = 3) \<longrightarrow>
          save_1LMG L lp ms sp c = \<lparr>stderr = [], stdout = None, saved = Some out, ret = Inr 0\<rparr>)"
proof -
  from build_1LMG_layout[OF assms] obtain ps where
    ps: "map (message_encode L) ms = map Inr ps" and out: "out = spec_container ms ps"
    and b: "length ms < 2 ^ 32" "length (spec_pad4 (concat ps)) < 2 ^ 32"
      "4 + length ms * 8 + length (spec_pad4 (spec_label_buffer ms)) < 2 ^ 32"
    by blast
  have pv: "payloads L ms = ps"
    unfolding payloads_def using ps
  proof (induction ms arbitrary: ps)
    case Nil
    then show ?case by simp
  next
    case (Cons m ms)
    then show ?case by (cases ps) auto
  qed
  note f = spec_container_fields[OF refl refl b(2) b(3) b(1)]
  have pairs: "\<forall>i<length ms. take 8 (drop (4 + 8 * i) (spec_pointer_table ms ps))
          = le32 (length (spec_label_buffer (take i ms)))
            @ le32 (length (concat (take i ps)) + 0x34)"
    by (simp add: spec_pointer_table_pair spec_table_pair_def)
  have save: "\<not> ((drop (length sp - 3) sp = ascii ''.lz'' \<and> c = 2) \<or> c = 3) \<longrightarrow>
          save_1LMG L lp ms sp c = \<lparr>stderr = [], stdout = None, saved = Some out, ret = Inr 0\<rparr>"
    using save_1LMG_plain[OF assms] by blast
  have o: "out = spec_header (length (spec_pad4 (concat ps))) 4
               (4 + length ms * 8 + length (spec_pad4 (spec_label_buffer ms)))
             @ spec_pad4 (concat ps) @ [0x2A, 0, 0, 0] @ spec_pointer_table ms ps
             @ spec_pad4 (spec_label_buffer ms)"
    unfolding out spec_container_def by simp
  show ?thesis
    unfolding pv
    apply (intro conjI)
            apply (rule ps)
           apply (rule o)
          apply (rule length_spec_header)
         apply (rule spec_pad4_aligned)
        apply (rule spec_pad4_aligned)
       apply (simp only: out f(3))
      apply (simp only: out f(5))
     apply (rule pairs)
    apply (rule save)
    done
qed

text \<open>
  Claim C2, amended. The encoder writes the mystery field (bytes 4 to 7) as four zero
  bytes, whatever the text: of any container it saves uncompressed, the mystery field is
  zero. So a round trip keeps the mystery field of the original exactly when that field
  is zero.
\<close>

theorem mystery_zeroed:
  assumes "saved (encode_1LMG L lp text sp c) = Some out"
    and "\<not> ((drop (length sp - 3) sp = ascii ''.lz'' \<and> c = 2) \<or> c = 3)"
  shows "take 4 (drop 4 out) = replicate 4 0
    \<and> (take 4 (drop 4 out) = take 4 (drop 4 original)) = (take 4 (drop 4 original) = replicate 4 0)"
proof -
  define segs where "segs = drop 1 (split_py text (ascii ''===\<newline>''))"
  have enc: "encode_1LMG L lp text sp c =
     (if length segs mod 2 \<noteq> 0
      then failed (ascii ''Mismatching number of labels and messages: '' @ lp
                      @ ascii ''\<newline>'') (- 1)
      else (case text_messages (cut_lines segs) of Inl x \<Rightarrow> raised x
            | Inr messages \<Rightarrow> save_1LMG L lp messages sp c))"
    unfolding encode_1LMG_def Let_def segs_def ..
  from assms(1) obtain ms where ms: "saved (save_1LMG L lp ms sp c) = Some out"
    unfolding enc by (auto simp: failed_def raised_def split: if_splits sum.splits)
  then obtain b where b: "build_1LMG L ms = Inr b"
    by (auto simp: save_1LMG_def failed_def raised_def split: sum.splits stop.splits)
  then have "out = b" using ms save_1LMG_plain[OF _ assms(2), of L ms b lp] by simp
  with b have bo: "build_1LMG L ms = Inr out" by simp
  from build_1LMG_layout[OF bo] obtain ps where
    out: "out = spec_container ms ps"
    and bd: "length ms < 2 ^ 32" "length (spec_pad4 (concat ps)) < 2 ^ 32"
      "4 + length ms * 8 + length (spec_pad4 (spec_label_buffer ms)) < 2 ^ 32"
    by blast
  have z: "take 4 (drop 4 out) = replicate 4 0"
    unfolding out by (rule spec_container_fields(2)[OF refl refl bd(2) bd(3) bd(1)])
  show ?thesis unfolding z by auto
qed

lemma decode_container_not_partial:
  assumes "read_header bytes = Inr ((my, dl, 4, n), d)"
  shows "ret (decode_container L lp bytes sp) \<noteq> Inr 1"
proof -
  have w: "ret (write_output L sp 4 X) \<noteq> Inr 1" for X
    using write_output_ret[of L sp 4 X] by auto
  show ?thesis
    by (auto simp: decode_container_def assms failed_def raised_def Let_def w
        split: sum.splits option.splits prod.splits)
qed

text \<open>
  Claim C10, amended. Every container the encoder builds has the 4-byte string section
  \<open>*\<close>, 0, 0, 0 behind its data and the string length field 4. Decoding it never returns
  1, the partial result. A container built from no message at all is rejected as empty,
  with \<open>-2\<close>. A container built from at least one message holds as many messages as
  were encoded, and decode hands the messages of its pointer table to \<open>get_label\<close> and
  \<open>decode\<close>; when one of these calls raises, so does decode; otherwise the trailing-pad
  check for the string length 4 is applied to what they return, and the result is
  written. When the output stream can encode every rendered message (UTF-8 for the file
  at the save path, the encoding of the standard output otherwise), all of them are
  written and decode returns 0; when it cannot, the write raises. So decode ends with 0,
  with an exception of \<open>lib/\<close> or with \<open>UnicodeEncodeError\<close>.
\<close>

theorem encoder_output_decodes:
  assumes "build_1LMG L ms = Inr out"
  shows "take 4 (drop (0x34 + u32_at out 8) out) = [0x2A, 0, 0, 0]
    \<and> u32_at out 12 = 4
    \<and> ret (decode_1LMG L' lp out sp c) \<noteq> Inr 1
    \<and> (ms = [] \<longrightarrow>
         decode_1LMG L' lp out sp c = failed (ascii ''1LMG is empty: '' @ lp @ ascii ''\<newline>'') (- 2))
    \<and> (ms \<noteq> [] \<longrightarrow>
         spec_message_count out = length ms
         \<and> decode_1LMG L' lp out sp c =
             (case decode_messages L' (spec_labels_position out) (spec_messages out)
                     \<lparr>buf = out, pos = spec_labels_position out\<rparr> of
                None \<Rightarrow> raised LibError
              | Some (ms', d) \<Rightarrow> write_output L' sp 4 (strip_trailing_pad L' 4 ms'))
         \<and> (ret (decode_1LMG L' lp out sp c) = Inr 0
              \<or> ret (decode_1LMG L' lp out sp c) = Inl LibError
              \<or> ret (decode_1LMG L' lp out sp c) = Inl UnicodeEncodeError))
    \<and> (ms \<noteq> []
        \<and> decode_messages L' (spec_labels_position out) (spec_messages out)
             \<lparr>buf = out, pos = spec_labels_position out\<rparr> = Some (ms', d)
        \<and> list_all (\<lambda>m. (case sp of None \<Rightarrow> stdout_encodes L' | Some path \<Rightarrow> list_all encodable)
                           (message_str L' m)) (strip_trailing_pad L' 4 ms') \<longrightarrow>
         decode_1LMG L' lp out sp c =
           \<lparr>stderr = [],
            stdout = (case sp of
               None \<Rightarrow> Some (concat (map (message_str L') (strip_trailing_pad L' 4 ms'))
                             @ ascii ''\<newline>'')
             | Some path \<Rightarrow> None),
            saved = (case sp of
               None \<Rightarrow> None
             | Some path \<Rightarrow> Some (concat (map (message_str L') (strip_trailing_pad L' 4 ms')))),
            ret = Inr 0\<rparr>)"
proof -
  from build_1LMG_layout[OF assms] obtain ps where
    out: "out = spec_container ms ps"
    and b: "length ms < 2 ^ 32" "length (spec_pad4 (concat ps)) < 2 ^ 32"
      "4 + length ms * 8 + length (spec_pad4 (spec_label_buffer ms)) < 2 ^ 32"
    by blast
  define dl where "dl = length (spec_pad4 (concat ps))"
  define tbl where "tbl = 4 + length ms * 8 + length (spec_pad4 (spec_label_buffer ms))"
  note f = spec_container_fields[OF dl_def tbl_def b(2)[folded dl_def] b(3)[folded tbl_def] b(1),
      folded out]
  have dec: "decode_1LMG L' lp out sp c = decode_container L' lp out sp"
    using f(1) by (rule decode_magic)
  have len: "16 \<le> length out" "0x34 + u32_at out 8 + u32_at out 12 + 4 \<le> length out"
    using f(3,4,8) by (simp_all add: tbl_def)
  have cnt: "u32_at out (0x34 + u32_at out 8 + u32_at out 12) = length ms"
    using f(7) by (simp add: f(3,4))
  have rh: "read_header out = Inr ((u32_at out 4, dl, 4, length ms),
         \<lparr>buf = out, pos = 0x34 + dl + 4 + 4\<rparr>)"
    using read_header_ok[OF len] f(7) by (simp add: f(3,4))
  have np: "ret (decode_1LMG L' lp out sp c) \<noteq> Inr 1"
    unfolding dec by (rule decode_container_not_partial[OF rh])
  have empty: "decode_1LMG L' lp out sp c
      = failed (ascii ''1LMG is empty: '' @ lp @ ascii ''\<newline>'') (- 2)" if "ms = []"
    unfolding dec using decode_container_empty[OF len] cnt that by simp
  have sc: "spec_message_count out = length ms"
    using cnt by (simp add: spec_message_count_def spec_table_position_def)
  have run: "decode_1LMG L' lp out sp c =
             (case decode_messages L' (spec_labels_position out) (spec_messages out)
                     \<lparr>buf = out, pos = spec_labels_position out\<rparr> of
                None \<Rightarrow> raised LibError
              | Some (ms', d) \<Rightarrow> write_output L' sp 4 (strip_trailing_pad L' 4 ms'))"
    if "ms \<noteq> []"
  proof -
    have one: "1 \<le> spec_message_count out" using that sc by (cases ms) simp_all
    have lab: "spec_labels_position out \<le> length out"
      using f(8) by (simp add: spec_labels_position_def spec_table_position_def sc f(3,4) tbl_def)
    show ?thesis
      unfolding dec using decode_container_table[OF len(1) one lab, of L' lp sp]
      by (simp only: f(4))
  qed
  have three: "ret (decode_1LMG L' lp out sp c) = Inr 0
              \<or> ret (decode_1LMG L' lp out sp c) = Inl LibError
              \<or> ret (decode_1LMG L' lp out sp c) = Inl UnicodeEncodeError" if "ms \<noteq> []"
  proof (cases "decode_messages L' (spec_labels_position out) (spec_messages out)
                     \<lparr>buf = out, pos = spec_labels_position out\<rparr>")
    case None
    then show ?thesis using run[OF that] by (simp add: raised_def)
  next
    case (Some r)
    obtain ms' d where r: "r = (ms', d)" by (cases r)
    have "decode_1LMG L' lp out sp c = write_output L' sp 4 (strip_trailing_pad L' 4 ms')"
      using run[OF that] Some r by simp
    then show ?thesis
      using write_output_ret[of L' sp 4 "strip_trailing_pad L' 4 ms'"] by auto
  qed
  have full: "decode_1LMG L' lp out sp c =
           \<lparr>stderr = [],
            stdout = (case sp of
               None \<Rightarrow> Some (concat (map (message_str L') (strip_trailing_pad L' 4 ms'))
                             @ ascii ''\<newline>'')
             | Some path \<Rightarrow> None),
            saved = (case sp of
               None \<Rightarrow> None
             | Some path \<Rightarrow> Some (concat (map (message_str L') (strip_trailing_pad L' 4 ms')))),
            ret = Inr 0\<rparr>"
    if "ms \<noteq> []"
      and dm: "decode_messages L' (spec_labels_position out) (spec_messages out)
             \<lparr>buf = out, pos = spec_labels_position out\<rparr> = Some (ms', d)"
      and enc: "list_all (\<lambda>m. (case sp of None \<Rightarrow> stdout_encodes L' | Some path \<Rightarrow> list_all encodable)
                           (message_str L' m)) (strip_trailing_pad L' 4 ms')"
  proof -
    have w: "decode_1LMG L' lp out sp c = write_output L' sp 4 (strip_trailing_pad L' 4 ms')"
      using run[OF that(1)] dm by simp
    show ?thesis
    proof (cases sp)
      case None
      then show ?thesis using w enc by (simp add: write_output_printed)
    next
      case (Some path)
      then show ?thesis using w enc by (simp add: write_output_saved)
    qed
  qed
  show ?thesis
    using f(4) f(6)[unfolded f(3)[symmetric]] np empty sc run three full by blast
qed

section \<open>Success and failure of the builder (encode)\<close>

lemma str_encode_ok: "list_all encodable s \<Longrightarrow> str_encode s = Inr (utf8 s)"
  by (simp add: str_encode_def)

lemma encode_messages_prefix:
  assumes "map (message_encode L) pre = map Inr ps"
    and "\<forall>x\<in>set pre. list_all encodable (label x)"
    and "length (buf labels) + length (concat (map (\<lambda>m. utf8 (label m) @ [0]) pre)) < 2 ^ 32"
    and "length (buf data) + length (concat ps) + 0x34 < 2 ^ 32"
  shows "\<exists>t' l' d'. buf l' = buf labels @ concat (map (\<lambda>m. utf8 (label m) @ [0]) pre)
    \<and> buf d' = buf data @ concat ps
    \<and> encode_messages L (pre @ rest) table labels data = encode_messages L rest t' l' d'"
  using assms
proof (induction pre arbitrary: ps table labels data)
  case Nil
  then show ?case by auto
next
  case (Cons x pre)
  from Cons.prems(1) obtain q qs where ps: "ps = q # qs" and q: "message_encode L x = Inr q"
    and qs: "map (message_encode L) pre = map Inr qs"
    by (cases ps) auto
  have p: "pack_LL (length (buf labels)) (length (buf data) + 0x34)
      = Inr (le32 (length (buf labels)) @ le32 (length (buf data) + 0x34))"
    using Cons.prems(3,4) by (simp add: pack_LL_def ps)
  have l: "str_encode (label x) = Inr (utf8 (label x))"
    using Cons.prems(2) by (simp add: str_encode_ok)
  define table1 where "table1 = bio_write (le32 (length (buf labels)) @ le32 (length (buf data) + 0x34)) table"
  define labels1 where "labels1 = bio_write (utf8 (label x) @ [0]) (bio_seek_end labels)"
  define data1 where "data1 = bio_write q (bio_seek_end data)"
  have step: "encode_messages L ((x # pre) @ rest) table labels data
      = encode_messages L (pre @ rest) table1 labels1 data1"
    by (simp add: Let_def p q l table1_def labels1_def data1_def)
  have b1: "buf labels1 = buf labels @ utf8 (label x) @ [0]" "buf data1 = buf data @ q"
    by (simp_all add: labels1_def data1_def)
  have "\<exists>t' l' d'. buf l' = buf labels1 @ concat (map (\<lambda>m. utf8 (label m) @ [0]) pre)
    \<and> buf d' = buf data1 @ concat qs
    \<and> encode_messages L (pre @ rest) table1 labels1 data1 = encode_messages L rest t' l' d'"
    using Cons.prems(2,3,4) by (intro Cons.IH[OF qs]) (simp_all add: b1 ps)
  then show ?case unfolding step by (simp add: b1 ps)
qed

lemma encode_messages_first_failure:
  assumes "map (message_encode L) pre = map Inr ps"
    and "\<forall>x\<in>set pre. list_all encodable (label x)"
    and "length (buf labels) + length (concat (map (\<lambda>m. utf8 (label m) @ [0]) pre)) < 2 ^ 32"
    and "length (buf data) + length (concat ps) + 0x34 < 2 ^ 32"
    and "message_encode L m = Inl e"
  shows "encode_messages L (pre @ m # post) table labels data = Inl (EncodingError e)"
proof -
  from encode_messages_prefix[OF assms(1-4), of "m # post" table] obtain t' l' d' where
    b: "buf l' = buf labels @ concat (map (\<lambda>m. utf8 (label m) @ [0]) pre)"
       "buf d' = buf data @ concat ps"
    and e: "encode_messages L (pre @ m # post) table labels data
         = encode_messages L (m # post) t' l' d'"
    by blast
  have "pack_LL (length (buf l')) (length (buf d') + 0x34)
      = Inr (le32 (length (buf l')) @ le32 (length (buf d') + 0x34))"
    using assms(3,4) by (simp add: pack_LL_def b)
  then show ?thesis unfolding e by (simp add: Let_def assms(5))
qed

lemma encode_messages_some_failure:
  "m \<in> set ms \<Longrightarrow> message_encode L m = Inl e \<Longrightarrow>
   \<exists>x. encode_messages L ms table labels data = Inl x"
proof (induction ms arbitrary: table labels data)
  case Nil
  then show ?case by simp
next
  case (Cons a ms)
  show ?case
  proof (cases "a = m")
    case True
    then show ?thesis using Cons.prems(2) by (auto simp: Let_def split: sum.splits)
  next
    case False
    then have "m \<in> set ms" using Cons.prems(1) by simp
    from Cons.IH[OF this Cons.prems(2)] show ?thesis
      by (auto simp: Let_def split: sum.splits)
  qed
qed

lemma build_1LMG_ok:
  assumes "map (message_encode L) ms = map Inr ps"
    and "\<forall>x\<in>set ms. list_all encodable (label x)"
    and "length ms < 2 ^ 32"
    and "length (spec_pad4 (concat ps)) + 0x34 < 2 ^ 32"
    and "4 + length ms * 8 + length (spec_pad4 (spec_label_buffer ms)) < 2 ^ 32"
  shows "build_1LMG L ms = Inr (spec_container ms ps)"
proof -
  define table0 where "table0 = bio_write (le32 (length ms)) (BytesIO [])"
  define labels0 where "labels0 = bio_write ([0x2A] @ replicate 1 0) (BytesIO [])"
  have p0: "pack_L (length ms) = Inr (le32 (length ms))"
    using assms(3) by (simp add: pack_L_def)
  have l0: "buf labels0 = [0x2A, 0]"
    by (simp add: labels0_def bio_write_def BytesIO_def)
  have t0: "pos table0 = length (buf table0)"
    by (simp add: table0_def bio_write_def BytesIO_def le32_def)
  have lb: "length (buf labels0) + length (concat (map (\<lambda>m. utf8 (label m) @ [0]) ms)) < 2 ^ 32"
    using assms(5) by (simp add: l0 spec_label_buffer_def spec_pad4_def)
  have db: "length (buf (BytesIO [])) + length (concat ps) + 0x34 < 2 ^ 32"
    using assms(4) by (simp add: BytesIO_def spec_pad4_def)
  from encode_messages_prefix[OF assms(1,2) lb db, of "[]" table0] obtain t l d where
    loop: "encode_messages L ms table0 labels0 (BytesIO []) = Inr (t, l, d)"
    by auto
  from encode_messages_layout[OF loop t0] obtain qs where
    qs: "map (message_encode L) ms = map Inr qs"
    and bd: "buf d = buf (BytesIO []) @ concat qs"
    and bl: "buf l = buf labels0 @ concat (map (\<lambda>m. utf8 (label m) @ [0]) ms)"
    and bt: "length (buf t) = length (buf table0) + 8 * length ms"
    by (auto simp: length_concat_pairs)
  have "map Inr qs = (map Inr ps :: (ustr + byte list) list)" using qs assms(1) by simp
  then have qp: "qs = ps" by (simp add: inj_map_eq_map)
  have sizes: "pos (bio_seek_end (align4 d)) = length (spec_pad4 (concat ps))"
    "pos (bio_seek_end (BytesIO ([0x2A] @ replicate 3 0))) = 4"
    "pos (bio_seek_end t) + pos (bio_seek_end (align4 l))
       = 4 + length ms * 8 + length (spec_pad4 (spec_label_buffer ms))"
    by (simp_all add: align4_spec bd bl bt qp l0 BytesIO_def spec_label_buffer_def table0_def
        bio_write_def le32_def)
  have p3: "pack_LLL (length (spec_pad4 (concat ps))) 4
      (4 + length ms * 8 + length (spec_pad4 (spec_label_buffer ms)))
      = Inr (le32 (length (spec_pad4 (concat ps))) @ le32 4
             @ le32 (4 + length ms * 8 + length (spec_pad4 (spec_label_buffer ms))))"
    using assms(4,5) by (simp add: pack_LLL_def)
  note unf = build_1LMG_unfold[of L ms, unfolded p0 sum.case, folded table0_def labels0_def,
      unfolded loop sum.case prod.case sizes p3]
  then obtain out where out: "build_1LMG L ms = Inr out" by blast
  from build_1LMG_layout[OF out] obtain rs where
    rs: "map (message_encode L) ms = map Inr rs" and o: "out = spec_container ms rs"
    by blast
  have "map Inr rs = (map Inr ps :: (ustr + byte list) list)" using rs assms(1) by simp
  then have "rs = ps" by (simp add: inj_map_eq_map)
  then show ?thesis using out o by simp
qed

section \<open>Sample runs (encode)\<close>

lemma sample_encode:
  "message_encode sample_lib m = (if list_all (\<lambda>c. c < 256) (decoded m)
         then Inr (map of_nat (decoded m)) else Inl (ascii ''bad character''))"
  by (simp add: sample_lib_def)

lemma replicate_numeral_eval:
  "replicate (numeral k) x = x # replicate (pred_numeral k) x"
  by (simp add: numeral_eq_Suc)

lemma utf8_a: "utf8 [97] = [0x61]" "list_all encodable [97]"
  by (simp_all add: utf8_def utf8_char_def encodable_def)

lemma spec_container_sample:
  "spec_container [sample_message] [[0x68, 0x69]] = sample_container"
  by (simp add: spec_container_def spec_header_def spec_pad4_def spec_pointer_table_def
      spec_table_pair_def spec_label_buffer_def sample_message_def ascii_def utf8_a le32_def
      magic_eval sample_container_def replicate_numeral_eval)

lemma build_sample: "build_1LMG sample_lib [sample_message] = Inr sample_container"
proof -
  have "build_1LMG sample_lib [sample_message] = Inr (spec_container [sample_message] [[0x68, 0x69]])"
    by (rule build_1LMG_ok)
      (simp_all add: sample_encode sample_message_def ascii_def utf8_a spec_pad4_def
        spec_label_buffer_def encodable_def)
  then show ?thesis by (simp only: spec_container_sample)
qed

lemma build_1LMG_failure:
  assumes "encode_messages L ms (bio_write (le32 (length ms)) (BytesIO []))
             (bio_write ([0x2A] @ replicate 1 0) (BytesIO [])) (BytesIO []) = Inl x"
  shows "build_1LMG L ms = Inl x \<or> build_1LMG L ms = Inl (Raise StructError)"
proof (cases "pack_L (length ms)")
  case (Inl a)
  then have "a = StructError" by (simp add: pack_L_def split: if_splits)
  then show ?thesis using Inl by (simp add: build_1LMG_unfold)
next
  case (Inr p)
  then have "p = le32 (length ms)" by (simp add: pack_L_def split: if_splits)
  then show ?thesis using Inr assms by (simp add: build_1LMG_unfold)
qed

text \<open>
  Claim C9. When a message of the input does not encode (the message-level encoder
  returns an error description), nothing is written to the output path and the call does
  not return 0: the output file is opened only after the whole container is built. When
  the messages before the first such message encode, and the offsets and the message
  count fit 32 bits, the call reports that message's error description and returns \<open>-3\<close>.
\<close>

theorem encoding_error_no_output:
  assumes "message_encode L m = Inl e"
  shows "(m \<in> set ms \<longrightarrow>
           saved (save_1LMG L lp ms sp c) = None \<and> ret (save_1LMG L lp ms sp c) \<noteq> Inr 0)
    \<and> (map (message_encode L) pre = map Inr ps
        \<and> (\<forall>x\<in>set pre. list_all encodable (label x))
        \<and> length (pre @ m # post) < 2 ^ 32
        \<and> length (spec_label_buffer pre) < 2 ^ 32
        \<and> length (concat ps) + 0x34 < 2 ^ 32 \<longrightarrow>
          save_1LMG L lp (pre @ m # post) sp c
            = failed (ascii ''File had encoding error: '' @ lp @ [10, 9] @ e @ ascii ''\<newline>'')
                (- 3))"
proof -
  have any: "saved (save_1LMG L lp ms sp c) = None \<and> ret (save_1LMG L lp ms sp c) \<noteq> Inr 0"
    if "m \<in> set ms"
  proof -
    from encode_messages_some_failure[OF that assms] obtain x where
      "encode_messages L ms (bio_write (le32 (length ms)) (BytesIO []))
             (bio_write ([0x2A] @ replicate 1 0) (BytesIO [])) (BytesIO []) = Inl x"
      by blast
    from build_1LMG_failure[OF this] obtain y where "build_1LMG L ms = Inl y" by blast
    then show ?thesis
      by (cases y) (simp_all add: save_1LMG_def failed_def raised_def)
  qed
  have first: "save_1LMG L lp (pre @ m # post) sp c
            = failed (ascii ''File had encoding error: '' @ lp @ [10, 9] @ e @ ascii ''\<newline>'')
                (- 3)"
    if h: "map (message_encode L) pre = map Inr ps" "\<forall>x\<in>set pre. list_all encodable (label x)"
      "length (pre @ m # post) < 2 ^ 32" "length (spec_label_buffer pre) < 2 ^ 32"
      "length (concat ps) + 0x34 < 2 ^ 32"
  proof -
    have lb: "length (buf (bio_write ([0x2A] @ replicate 1 0) (BytesIO [])))
        + length (concat (map (\<lambda>m. utf8 (label m) @ [0]) pre)) < 2 ^ 32"
      using h(4) by (simp add: spec_label_buffer_def bio_write_def BytesIO_def)
    have db: "length (buf (BytesIO [])) + length (concat ps) + 0x34 < 2 ^ 32"
      using h(5) by (simp add: BytesIO_def)
    have p0: "pack_L (length (pre @ m # post)) = Inr (le32 (length (pre @ m # post)))"
      using h(3) by (simp add: pack_L_def)
    have "build_1LMG L (pre @ m # post) = Inl (EncodingError e)"
      unfolding build_1LMG_unfold p0 sum.case
        encode_messages_first_failure[OF h(1,2) lb db assms]
      by simp
    then show ?thesis by (simp add: save_1LMG_def)
  qed
  show ?thesis using any first by blast
qed

lemma bad_encode: "message_encode sample_lib bad_message = Inl (ascii ''bad character'')"
  by (simp add: sample_encode bad_message_def)

theorem encoding_error_no_output_witness:
  "save_1LMG sample_lib (ascii ''in'') [sample_message, bad_message, sample_message] (ascii ''out'') 2
     = failed (ascii ''File had encoding error: in\<newline>'' @ [9] @ ascii ''bad character\<newline>'') (- 3)
   \<and> saved (save_1LMG sample_lib (ascii ''in'') [sample_message, bad_message, sample_message]
        (ascii ''out'') 2) = None"
proof -
  have h: "map (message_encode sample_lib) [sample_message] = map Inr [[0x68, 0x69]]"
    "\<forall>x\<in>set [sample_message]. list_all encodable (label x)"
    "length ([sample_message] @ bad_message # [sample_message]) < 2 ^ 32"
    "length (spec_label_buffer [sample_message]) < 2 ^ 32"
    "length (concat [[0x68, 0x69 :: byte]]) + 0x34 < 2 ^ 32"
    by (simp_all add: sample_encode sample_message_def ascii_def utf8_a spec_label_buffer_def
        encodable_def)
  have m: "bad_message \<in> set [sample_message, bad_message, sample_message]" by simp
  from encoding_error_no_output[OF bad_encode, where ms = "[sample_message, bad_message, sample_message]"
      and pre = "[sample_message]" and ps = "[[0x68, 0x69]]" and post = "[sample_message]"
      and lp = "ascii ''in''" and sp = "ascii ''out''" and c = 2] h m
  show ?thesis by (simp add: ascii_def failed_def)
qed

lemma sample_payloads: "payloads sample_lib [sample_message] = [[0x68, 0x69]]"
  by (simp add: payloads_def sample_encode sample_message_def ascii_def)

theorem container_layout_witness:
  "build_1LMG sample_lib [sample_message] = Inr sample_container
   \<and> u32_at sample_container 8 = 4
   \<and> u32_at sample_container 16 = 16
   \<and> take 8 (drop 4 (spec_pointer_table [sample_message] [[0x68, 0x69]])) = le32 2 @ le32 0x34
   \<and> save_1LMG sample_lib (ascii ''in'') [sample_message] (ascii ''out'') 1
       = \<lparr>stderr = [], stdout = None, saved = Some sample_container, ret = Inr 0\<rparr>"
proof -
  note f = container_layout[OF build_sample, where sp = "ascii ''out''" and c = 1
      and lp = "ascii ''in''", unfolded sample_payloads]
  note r = f[THEN conjunct2, THEN conjunct2, THEN conjunct2, THEN conjunct2, THEN conjunct2]
  have a: "u32_at sample_container 8 = 4"
    using r[THEN conjunct1] by (simp add: spec_pad4_def)
  have b: "u32_at sample_container 16 = 16"
    using r[THEN conjunct2, THEN conjunct1]
    by (simp add: spec_pad4_def spec_label_buffer_def sample_message_def ascii_def utf8_a)
  have p: "take 8 (drop 4 (spec_pointer_table [sample_message] [[0x68, 0x69]])) = le32 2 @ le32 0x34"
    using r[THEN conjunct2, THEN conjunct2, THEN conjunct1]
    by (simp add: spec_label_buffer_def numeral_2_eq_2)
  have s: "save_1LMG sample_lib (ascii ''in'') [sample_message] (ascii ''out'') 1
       = \<lparr>stderr = [], stdout = None, saved = Some sample_container, ret = Inr 0\<rparr>"
    using r[THEN conjunct2, THEN conjunct2, THEN conjunct2] by simp
  show ?thesis using build_sample a b p s by (intro conjI)
qed

lemma encode_1LMG_messages:
  assumes "drop 1 (split_py text (ascii ''===\<newline>'')) = segs" and "even (length segs)"
    and "text_messages (cut_lines segs) = Inr ms"
  shows "encode_1LMG L lp text sp c = save_1LMG L lp ms sp c"
proof -
  have "encode_1LMG L lp text sp c =
     (if length segs mod 2 \<noteq> 0
      then failed (ascii ''Mismatching number of labels and messages: '' @ lp
                      @ ascii ''\<newline>'') (- 1)
      else (case text_messages (cut_lines segs) of Inl x \<Rightarrow> raised x
            | Inr messages \<Rightarrow> save_1LMG L lp messages sp c))"
    unfolding encode_1LMG_def Let_def assms(1) ..
  then show ?thesis using assms(2,3) by (simp add: even_iff_mod_2_eq_zero)
qed

lemma text_one_messages:
  "drop 1 (split_py text_one (ascii ''===\<newline>'')) = [ascii ''a Position 1\<newline>'', ascii ''hi\<newline>'']"
  "text_messages (cut_lines [ascii ''a Position 1\<newline>'', ascii ''hi\<newline>'']) = Inr [message_one]"
  by (simp add: split_text_one)
    (simp only: cut_text_one, simp add: label_text_one message_one_def)

theorem segment_parity_witness:
  "encode_1LMG sample_lib (ascii ''in'') text_odd (ascii ''out'') 2
     = failed (ascii ''Mismatching number of labels and messages: in\<newline>'') (- 1)
   \<and> saved (encode_1LMG sample_lib (ascii ''in'') text_odd (ascii ''out'') 2) = None
   \<and> encode_1LMG sample_lib (ascii ''in'') text_one (ascii ''out'') 2
     = save_1LMG sample_lib (ascii ''in'') [message_one] (ascii ''out'') 2"
proof -
  note t = segment_parity[where ?text = text_odd and L = sample_lib and lp = "ascii ''in''"
      and sp = "ascii ''out''" and c = 2]
  have o: "odd (length (drop 1 (split_py text_odd (ascii ''===\<newline>''))))"
    by (simp add: split_text_odd)
  have 1: "encode_1LMG sample_lib (ascii ''in'') text_odd (ascii ''out'') 2
     = failed (ascii ''Mismatching number of labels and messages: in\<newline>'') (- 1)"
    using t[THEN conjunct1] o by (simp add: ascii_def)
  have 2: "saved (encode_1LMG sample_lib (ascii ''in'') text_odd (ascii ''out'') 2) = None"
    using 1 by (simp add: failed_def)
  note u = segment_parity[where ?text = text_one and L = sample_lib and lp = "ascii ''in''"
      and sp = "ascii ''out''" and c = 2, THEN conjunct2, unfolded text_one_messages]
  have 3: "encode_1LMG sample_lib (ascii ''in'') text_one (ascii ''out'') 2
     = save_1LMG sample_lib (ascii ''in'') [message_one] (ascii ''out'') 2"
    using u by auto
  show ?thesis using 1 2 3 by (intro conjI)
qed

section \<open>Sample round trips\<close>

lemma utf8_ascii_a: "utf8 (ascii ''a'') = [0x61]" "list_all encodable (ascii ''a'')"
  by (simp_all add: ascii_def utf8_a encodable_def)

lemma spec_container_one:
  "spec_container [message_one] [[0x68, 0x69, 0x0A]] = text_one_container"
  by (simp add: spec_container_def spec_header_def spec_pad4_def spec_pointer_table_def
      spec_table_pair_def spec_label_buffer_def message_one_def utf8_ascii_a le32_def
      magic_eval text_one_container_def replicate_numeral_eval)

lemma build_one: "build_1LMG sample_lib [message_one] = Inr text_one_container"
proof -
  have "build_1LMG sample_lib [message_one] = Inr (spec_container [message_one] [[0x68, 0x69, 0x0A]])"
    by (rule build_1LMG_ok)
      (simp_all add: sample_encode message_one_def utf8_ascii_a spec_pad4_def
        spec_label_buffer_def, simp_all add: ascii_def)
  then show ?thesis by (simp only: spec_container_one)
qed

lemma encode_text_one:
  "encode_1LMG sample_lib (ascii ''in'') text_one (ascii ''out'') 1
     = \<lparr>stderr = [], stdout = None, saved = Some text_one_container, ret = Inr 0\<rparr>"
proof -
  have "encode_1LMG sample_lib (ascii ''in'') text_one (ascii ''out'') 1
      = save_1LMG sample_lib (ascii ''in'') [message_one] (ascii ''out'') 1"
    by (rule encode_1LMG_messages[OF text_one_messages(1) _ text_one_messages(2)]) simp
  also have "\<dots> = \<lparr>stderr = [], stdout = None, saved = Some text_one_container, ret = Inr 0\<rparr>"
    by (rule save_1LMG_plain[OF build_one]) simp
  finally show ?thesis .
qed

lemma mystery_fields:
  "take 4 (drop 4 mystery_container) = [1, 0, 0, 0]"
  "take 4 (drop 4 text_one_container) = [0, 0, 0, 0]"
  "take 4 (drop 4 roundtrip_container) = [0, 0, 0, 0]"
  by (simp_all add: mystery_container_def sample_container_def text_one_container_def
      roundtrip_container_def)

theorem mystery_zeroed_witness:
  "saved (encode_1LMG sample_lib (ascii ''in'') text_one (ascii ''out'') 1) = Some text_one_container
   \<and> take 4 (drop 4 text_one_container) = replicate 4 0
   \<and> take 4 (drop 4 text_one_container) \<noteq> take 4 (drop 4 mystery_container)"
proof -
  have s: "saved (encode_1LMG sample_lib (ascii ''in'') text_one (ascii ''out'') 1)
      = Some text_one_container"
    by (simp add: encode_text_one)
  have n: "\<not> ((drop (length (ascii ''out'') - 3) (ascii ''out'') = ascii ''.lz'' \<and> (1::int) = 2) \<or> (1::int) = 3)"
    by simp
  note m = mystery_zeroed[OF s n, where original = mystery_container]
  have "take 4 (drop 4 text_one_container) \<noteq> take 4 (drop 4 mystery_container)"
    using m[THEN conjunct2] by (simp add: mystery_fields replicate_numeral_eval)
  then show ?thesis using s m[THEN conjunct1] by (intro conjI)
qed

lemma mystery_eval:
  "length mystery_container = 76" "take 4 mystery_container = magic"
  "u32_at mystery_container 4 = 1"
  "u32_at mystery_container 8 = 4" "u32_at mystery_container 12 = 4"
  "u32_at mystery_container 60 = 1"
  by (simp_all add: mystery_container_def sample_container_def magic_eval u32_at_def de32_def)

lemma mystery_messages:
  "decode_messages sample_lib 72 [(Message 2 0x34)\<lparr>length_m := Some 4\<rparr>]
       \<lparr>buf = mystery_container, pos = 72\<rparr>
     = Some ([(Message 2 0x34)\<lparr>length_m := Some 4, label := ascii ''a'',
                decoded := ascii ''hi'' @ [0, 0]\<rparr>], \<lparr>buf = mystery_container, pos = 72\<rparr>)"
proof -
  have "drop 74 mystery_container = [0x61, 0]" "take 4 (drop 52 mystery_container) = [0x68, 0x69, 0, 0]"
    by (simp_all add: mystery_container_def sample_container_def)
  then show ?thesis
    by (simp add: sample_lib_def Message_def ascii_def)
qed

lemma mystery_layout:
  "spec_message_count mystery_container = 1" "spec_labels_position mystery_container = 72"
  "spec_messages mystery_container = [(Message 2 0x34)\<lparr>length_m := Some 4\<rparr>]"
proof -
  have e: "u32_at mystery_container 64 = 2" "u32_at mystery_container 68 = 0x34"
    by (simp_all add: mystery_container_def sample_container_def u32_at_def de32_def)
  show "spec_message_count mystery_container = 1" "spec_labels_position mystery_container = 72"
    "spec_messages mystery_container = [(Message 2 0x34)\<lparr>length_m := Some 4\<rparr>]"
    by (simp_all add: spec_table_position_def spec_message_count_def spec_labels_position_def
        spec_messages_def spec_message_def spec_data_offset_def spec_string_position_def
        mystery_eval e Message_def)
qed

lemma decode_mystery:
  "decode_1LMG sample_lib (ascii ''in'') mystery_container (Some (ascii ''out'')) 2
     = \<lparr>stderr = [], stdout = None, saved = Some roundtrip_text, ret = Inr 0\<rparr>"
proof -
  have s: "strip_trailing_pad sample_lib 4 [(Message 2 0x34)\<lparr>length_m := Some 4, label := ascii ''a'',
                decoded := ascii ''hi'' @ [0, 0]\<rparr>]
      = [(Message 2 0x34)\<lparr>length_m := Some 4, label := ascii ''a'', decoded := ascii ''hi'' @ [0, 0]\<rparr>]"
    by (simp add: strip_trailing_pad_def sample_lib_def ascii_def)
  have w: "write_output sample_lib (Some (ascii ''out'')) 4
      [(Message 2 0x34)\<lparr>length_m := Some 4, label := ascii ''a'', decoded := ascii ''hi'' @ [0, 0]\<rparr>]
      = \<lparr>stderr = [], stdout = None, saved = Some roundtrip_text, ret = Inr 0\<rparr>"
    by (simp add: write_output_def sample_lib_def roundtrip_text_def ascii_def encodable_def)
  have h: "16 \<le> length mystery_container" "1 \<le> spec_message_count mystery_container"
    "spec_labels_position mystery_container \<le> length mystery_container"
    by (simp_all add: mystery_eval mystery_layout)
  have "decode_container sample_lib (ascii ''in'') mystery_container (Some (ascii ''out''))
     = \<lparr>stderr = [], stdout = None, saved = Some roundtrip_text, ret = Inr 0\<rparr>"
    by (simp only: decode_container_table[OF h] mystery_layout mystery_messages mystery_eval
        option.case prod.case s w)
  then show ?thesis by (simp add: decode_magic mystery_eval)
qed

lemma split_roundtrip_text:
  "drop 1 (split_py roundtrip_text (ascii ''===\<newline>''))
     = [ascii ''a\<newline>'', ascii ''hi'' @ [0, 0] @ ascii ''\<newline>'']"
  by (simp add: split_py_def roundtrip_text_def ascii_def)

lemma roundtrip_messages:
  "text_messages (cut_lines [ascii ''a\<newline>'', ascii ''hi'' @ [0, 0] @ ascii ''\<newline>''])
     = Inr [message_roundtrip]"
proof -
  have c: "cut_lines [ascii ''a\<newline>'', ascii ''hi'' @ [0, 0] @ ascii ''\<newline>'']
      = [ascii ''a'', ascii ''hi'' @ [0, 0] @ ascii ''\<newline>'']"
    by (simp add: ascii_def rfind_def py_upto_def)
  have l: "hd (split_py (ascii ''a'') (ascii '' Position'')) = ascii ''a''"
    by (simp add: split_py_def ascii_def)
  show ?thesis unfolding c by (simp add: l message_roundtrip_def)
qed

lemma spec_container_roundtrip:
  "spec_container [message_roundtrip] [[0x68, 0x69, 0, 0, 0x0A]] = roundtrip_container"
  by (simp add: spec_container_def spec_header_def spec_pad4_def spec_pointer_table_def
      spec_table_pair_def spec_label_buffer_def message_roundtrip_def utf8_ascii_a le32_def
      magic_eval roundtrip_container_def replicate_numeral_eval)

lemma build_roundtrip: "build_1LMG sample_lib [message_roundtrip] = Inr roundtrip_container"
proof -
  have "build_1LMG sample_lib [message_roundtrip]
      = Inr (spec_container [message_roundtrip] [[0x68, 0x69, 0, 0, 0x0A]])"
    by (rule build_1LMG_ok)
      (simp_all add: sample_encode message_roundtrip_def utf8_ascii_a spec_pad4_def
        spec_label_buffer_def, simp_all add: ascii_def)
  then show ?thesis by (simp only: spec_container_roundtrip)
qed

lemma encode_roundtrip:
  "encode_1LMG sample_lib (ascii ''out'') roundtrip_text (ascii ''back'') 2
     = \<lparr>stderr = [], stdout = None, saved = Some roundtrip_container, ret = Inr 0\<rparr>"
proof -
  have "encode_1LMG sample_lib (ascii ''out'') roundtrip_text (ascii ''back'') 2
      = save_1LMG sample_lib (ascii ''out'') [message_roundtrip] (ascii ''back'') 2"
    by (rule encode_1LMG_messages[OF split_roundtrip_text _ roundtrip_messages]) simp
  also have "\<dots> = \<lparr>stderr = [], stdout = None, saved = Some roundtrip_container, ret = Inr 0\<rparr>"
    by (rule save_1LMG_plain[OF build_roundtrip]) (simp add: ascii_def)
  finally show ?thesis .
qed

text \<open>
  Claim C2 does not hold as stated: a container with the mystery field 1 is decoded and
  the text is encoded again; the mystery field of the result is 0.
\<close>

theorem mystery_preserved_counterexample:
  "decode_1LMG sample_lib (ascii ''in'') mystery_container (Some (ascii ''out'')) 2
     = \<lparr>stderr = [], stdout = None, saved = Some roundtrip_text, ret = Inr 0\<rparr>
   \<and> encode_1LMG sample_lib (ascii ''out'') roundtrip_text (ascii ''back'') 2
     = \<lparr>stderr = [], stdout = None, saved = Some roundtrip_container, ret = Inr 0\<rparr>
   \<and> take 4 (drop 4 mystery_container) = [1, 0, 0, 0]
   \<and> take 4 (drop 4 roundtrip_container) = [0, 0, 0, 0]
   \<and> take 4 (drop 4 roundtrip_container) \<noteq> take 4 (drop 4 mystery_container)"
  by (simp add: decode_mystery encode_roundtrip mystery_fields)

lemma spec_container_empty: "spec_container [] [] = empty_container"
  by (simp add: spec_container_def spec_header_def spec_pad4_def spec_pointer_table_def
      spec_label_buffer_def le32_def magic_eval empty_container_def replicate_numeral_eval)

lemma build_empty: "build_1LMG L [] = Inr empty_container"
proof -
  have "build_1LMG L [] = Inr (spec_container [] [])"
    by (rule build_1LMG_ok) (simp_all add: spec_pad4_def spec_label_buffer_def)
  then show ?thesis by (simp only: spec_container_empty)
qed

lemma encode_empty:
  "encode_1LMG sample_lib (ascii ''in'') [] (ascii ''out'') 2
     = \<lparr>stderr = [], stdout = None, saved = Some empty_container, ret = Inr 0\<rparr>"
proof -
  have s: "drop 1 (split_py [] (ascii ''===\<newline>'')) = []" by (simp add: split_py_def)
  have t: "text_messages (cut_lines []) = Inr []" by simp
  have "encode_1LMG sample_lib (ascii ''in'') [] (ascii ''out'') 2
      = save_1LMG sample_lib (ascii ''in'') [] (ascii ''out'') 2"
    by (rule encode_1LMG_messages[OF s _ t]) simp
  also have "\<dots> = \<lparr>stderr = [], stdout = None, saved = Some empty_container, ret = Inr 0\<rparr>"
    by (rule save_1LMG_plain[OF build_empty]) (simp add: ascii_def)
  finally show ?thesis .
qed

lemma decode_empty_container:
  "decode_1LMG L lp empty_container sp c
     = failed (ascii ''1LMG is empty: '' @ lp @ ascii ''\<newline>'') (- 2)"
proof -
  have "decode_container L lp empty_container sp
     = failed (ascii ''1LMG is empty: '' @ lp @ ascii ''\<newline>'') (- 2)"
    by (rule decode_container_empty) (simp_all add: empty_container_eval)
  then show ?thesis by (simp add: decode_magic empty_container_eval)
qed

text \<open>
  Claim C10 does not hold as stated: the empty text is encoded without error into a
  container with no message, and decoding that container returns \<open>-2\<close>, not 0.
\<close>

theorem encoder_output_decodes_counterexample:
  "encode_1LMG sample_lib (ascii ''in'') [] (ascii ''out'') 2
     = \<lparr>stderr = [], stdout = None, saved = Some empty_container, ret = Inr 0\<rparr>
   \<and> decode_1LMG sample_lib (ascii ''out'') empty_container None 2
     = failed (ascii ''1LMG is empty: out\<newline>'') (- 2)
   \<and> ret (decode_1LMG sample_lib (ascii ''out'') empty_container None 2) \<noteq> Inr 0"
  using encode_empty by (simp add: decode_empty_container failed_def ascii_def)

lemma sample_container_eval:
  "length sample_container = 76" "take 4 sample_container = magic"
  "u32_at sample_container 8 = 4" "u32_at sample_container 12 = 4"
  "spec_message_count sample_container = 1" "spec_labels_position sample_container = 72"
  "spec_messages sample_container = [(Message 2 0x34)\<lparr>length_m := Some 4\<rparr>]"
  "drop 74 sample_container = [0x61, 0]" "take 4 (drop 52 sample_container) = [0x68, 0x69, 0, 0]"
  by (simp_all add: sample_container_def magic_eval u32_at_def de32_def
      spec_table_position_def spec_message_count_def spec_labels_position_def
      spec_messages_def spec_message_def spec_data_offset_def spec_string_position_def
      Message_def)

lemma sample_container_decoded:
  "decode_messages (sample_lib\<lparr>message_str := f\<rparr>) 72 [(Message 2 0x34)\<lparr>length_m := Some 4\<rparr>]
       \<lparr>buf = sample_container, pos = 72\<rparr>
     = Some ([(Message 2 0x34)\<lparr>length_m := Some 4, label := ascii ''a'',
                decoded := ascii ''hi'' @ [0, 0]\<rparr>], \<lparr>buf = sample_container, pos = 72\<rparr>)"
  by (simp add: sample_lib_def Message_def ascii_def sample_container_eval)

text \<open>
  The container of one message is decoded with 0; with a \<open>get_label\<close> that raises, or
  with a rendering that UTF-8 cannot encode, decoding the same container ends with the
  exception, and in the second case the file at the save path is left empty. The
  container of no message is rejected.
\<close>

theorem encoder_output_decodes_witness:
  "build_1LMG sample_lib [sample_message] = Inr sample_container
   \<and> u32_at sample_container 12 = 4
   \<and> take 4 (drop (0x34 + u32_at sample_container 8) sample_container) = [0x2A, 0, 0, 0]
   \<and> decode_1LMG sample_lib (ascii ''in'') sample_container None 2
        = \<lparr>stderr = [],
           stdout = Some (ascii ''===\<newline>a\<newline>===\<newline>hi'' @ [0, 0] @ ascii ''\<newline>\<newline>''),
           saved = None, ret = Inr 0\<rparr>
   \<and> decode_1LMG (sample_lib\<lparr>get_label := (\<lambda>m d p. None)\<rparr>) (ascii ''in'') sample_container
          None 2
        = raised LibError
   \<and> decode_1LMG (sample_lib\<lparr>message_str := (\<lambda>m. [0xD800])\<rparr>) (ascii ''in'') sample_container
          (Some (ascii ''out'')) 2
        = \<lparr>stderr = [], stdout = None, saved = Some [], ret = Inl UnicodeEncodeError\<rparr>
   \<and> build_1LMG sample_lib [] = Inr empty_container
   \<and> decode_1LMG sample_lib (ascii ''in'') empty_container None 2
        = failed (ascii ''1LMG is empty: in\<newline>'') (- 2)"
proof -
  have sl: "sample_lib\<lparr>message_str := message_str sample_lib\<rparr> = sample_lib" by simp
  note dm = sample_container_decoded[of "message_str sample_lib", unfolded sl]
  note f = encoder_output_decodes[OF build_sample, where L' = sample_lib and lp = "ascii ''in''"
      and sp = None and c = 2
      and ms' = "[(Message 2 0x34)\<lparr>length_m := Some 4, label := ascii ''a'',
                decoded := ascii ''hi'' @ [0, 0]\<rparr>]"
      and d = "\<lparr>buf = sample_container, pos = 72\<rparr>"]
  have 1: "u32_at sample_container 12 = 4" using f[THEN conjunct2, THEN conjunct1] .
  have 2: "take 4 (drop (0x34 + u32_at sample_container 8) sample_container) = [0x2A, 0, 0, 0]"
    using f[THEN conjunct1] .
  have s: "strip_trailing_pad sample_lib 4 [(Message 2 0x34)\<lparr>length_m := Some 4, label := ascii ''a'',
                decoded := ascii ''hi'' @ [0, 0]\<rparr>]
      = [(Message 2 0x34)\<lparr>length_m := Some 4, label := ascii ''a'', decoded := ascii ''hi'' @ [0, 0]\<rparr>]"
    by (simp add: strip_trailing_pad_def sample_lib_def ascii_def)
  have p: "[sample_message] \<noteq> []
      \<and> decode_messages sample_lib (spec_labels_position sample_container)
           (spec_messages sample_container)
           \<lparr>buf = sample_container, pos = spec_labels_position sample_container\<rparr>
         = Some ([(Message 2 0x34)\<lparr>length_m := Some 4, label := ascii ''a'',
                decoded := ascii ''hi'' @ [0, 0]\<rparr>], \<lparr>buf = sample_container, pos = 72\<rparr>)
      \<and> list_all (\<lambda>m. (case None of None \<Rightarrow> stdout_encodes sample_lib
                                   | Some path \<Rightarrow> list_all encodable)
                           (message_str sample_lib m))
           (strip_trailing_pad sample_lib 4 [(Message 2 0x34)\<lparr>length_m := Some 4,
              label := ascii ''a'', decoded := ascii ''hi'' @ [0, 0]\<rparr>])"
    unfolding s sample_container_eval dm
    by (simp add: sample_lib_def ascii_def encodable_def)
  have 3: "decode_1LMG sample_lib (ascii ''in'') sample_container None 2
        = \<lparr>stderr = [],
           stdout = Some (ascii ''===\<newline>a\<newline>===\<newline>hi'' @ [0, 0] @ ascii ''\<newline>\<newline>''),
           saved = None, ret = Inr 0\<rparr>"
    using f[THEN conjunct2, THEN conjunct2, THEN conjunct2, THEN conjunct2, THEN conjunct2,
        THEN mp, OF p]
    unfolding s by (simp add: sample_lib_def ascii_def)
  note g = encoder_output_decodes[OF build_sample,
      where L' = "sample_lib\<lparr>get_label := (\<lambda>m d p. None)\<rparr>" and lp = "ascii ''in''"
      and sp = None and c = 2]
  have 4: "decode_1LMG (sample_lib\<lparr>get_label := (\<lambda>m d p. None)\<rparr>) (ascii ''in'') sample_container
          None 2
        = raised LibError"
    using g[THEN conjunct2, THEN conjunct2, THEN conjunct2, THEN conjunct2, THEN conjunct1]
    by (simp add: sample_container_eval)
  note h = encoder_output_decodes[OF build_sample,
      where L' = "sample_lib\<lparr>message_str := (\<lambda>m. [0xD800])\<rparr>" and lp = "ascii ''in''"
      and sp = "Some (ascii ''out'')" and c = 2]
  have 5: "decode_1LMG (sample_lib\<lparr>message_str := (\<lambda>m. [0xD800])\<rparr>) (ascii ''in'') sample_container
          (Some (ascii ''out'')) 2
        = \<lparr>stderr = [], stdout = None, saved = Some [], ret = Inl UnicodeEncodeError\<rparr>"
  proof -
    have "[sample_message] \<noteq> []" by simp
    from h[THEN conjunct2, THEN conjunct2, THEN conjunct2, THEN conjunct2, THEN conjunct1,
        THEN mp, OF this, THEN conjunct2, THEN conjunct1]
    have "decode_1LMG (sample_lib\<lparr>message_str := (\<lambda>m. [0xD800])\<rparr>) (ascii ''in'')
          sample_container (Some (ascii ''out'')) 2
        = write_output (sample_lib\<lparr>message_str := (\<lambda>m. [0xD800])\<rparr>) (Some (ascii ''out'')) 4
            (strip_trailing_pad (sample_lib\<lparr>message_str := (\<lambda>m. [0xD800])\<rparr>) 4
               [(Message 2 0x34)\<lparr>length_m := Some 4, label := ascii ''a'',
                  decoded := ascii ''hi'' @ [0, 0]\<rparr>])"
      by (simp only: sample_container_eval sample_container_decoded option.case prod.case)
    then show ?thesis
      by (simp add: strip_trailing_pad_def write_output_def encodable_def sample_lib_def
          ascii_def Message_def)
  qed
  note e = encoder_output_decodes[OF build_empty[of sample_lib], where L' = sample_lib
      and lp = "ascii ''in''" and sp = None and c = 2]
  have 6: "decode_1LMG sample_lib (ascii ''in'') empty_container None 2
        = failed (ascii ''1LMG is empty: in\<newline>'') (- 2)"
    using e[THEN conjunct2, THEN conjunct2, THEN conjunct2, THEN conjunct1]
    by (simp add: ascii_def)
  show ?thesis using build_sample 1 2 3 4 5 build_empty[of sample_lib] 6 by (intro conjI)
qed

end
